theory Spec2Isabelle
  imports Main "HOL-Library.Word"
begin

section \<open>The background DB pool of package testdb (pkg/testdb/pristine.go)\<close>

text \<open>
  The package keeps, per pool name, a \<open>backgroundDBPool\<close> that creates temporary
  databases in background goroutines and hands them to tests through a buffered
  channel. The embedding below follows the Go source function by function.

  \<^item> Pointers are addresses: a \<open>*dbutil2.Schema\<close> is a \<open>nat option\<close> (\<open>None\<close> is
    \<open>nil\<close>), compared by address as Go's \<open>!=\<close> on pointers does; a
    \<open>*backgroundDBPool\<close> is an index into the list of allocated pool objects.
  \<^item> \<open>log.Fatal\<close> and run-time panics end the process; they are results
    (\<open>Fatal\<close>, \<open>Panic\<close>) that stop everything that would follow.
  \<^item> Package dbutil2, \<open>createdb\<close> and the database server are outside the files
    modelled here. They are parameters (record \<open>env\<close>): each external call is
    logged in the trace of the state, and whether it fails is a function of the
    trace so far, so the theorems hold for every behaviour of the backend.
  \<^item> Goroutines started with \<open>go\<close> are entries of a goroutine table. A run of
    \<open>prepareNewDB\<close> touches shared state through the atomic increment of
    \<open>nextID\<close>, then through the section of \<open>prepareDBs\<close> that holds \<open>b.mu\<close> and
    the send on \<open>readyDBs\<close>. A goroutine therefore runs in two steps, the
    increment and the rest, and steps of different goroutines interleave: a
    schedule (a list of table indices, one entry per step) says which steps run,
    in which order, while a caller of \<open>pristineDBs\<close> waits in its \<open>select\<close>.
    When the schedule is used up and the channel is still empty, the 45 second
    timer fires.
  \<^item> Lines 65 to 71 of \<open>pristineDBs\<close> hold \<open>backgroundDBPoolsLock\<close>, so calls
    take effect on the registry one after the other; a sequence of calls is a
    list.
\<close>

subsection \<open>Results\<close>

datatype error =
    ConfigError                \<comment> \<open>"No label set in package testdb."\<close>
  | PoolNotAvailable string    \<comment> \<open>"db pool not available: %q"\<close>
  | SchemaMismatch string      \<comment> \<open>"schema mismatch for db pool: %q"\<close>
  | ProvisionTimeout nat       \<comment> \<open>"testdb: DB creation wait exceeded timeout (%s)"\<close>
  | OpenFailed                 \<comment> \<open>"testdb: open DB:"\<close>
  | SchemaDropFailed           \<comment> \<open>"testdb: drop schemas:"\<close>
  | SchemaCreateFailed         \<comment> \<open>"testdb: create schemas:"\<close>
  | TruncateFailed             \<comment> \<open>"testdb: truncate all tables:"\<close>

datatype panic =
    NilDereference             \<comment> \<open>invalid memory address or nil pointer dereference\<close>
  | MakeChanSize               \<comment> \<open>makechan: size out of range\<close>

datatype 'a result = Ok 'a | Fatal error | Panic panic

subsection \<open>fmt.Sprintf with %d\<close>

text \<open>The digit table of \<open>strconv\<close>; it is only read at indices below 10.\<close>

definition digit_char :: "nat \<Rightarrow> char" where
  "digit_char d = ''0123456789'' ! d"

function show_nat :: "nat \<Rightarrow> string" where
  "show_nat n = (if n < 10 then [digit_char n] else show_nat (n div 10) @ [digit_char (n mod 10)])"
  by pat_completeness auto
termination
  by (relation "measure (\<lambda>n. n)") auto

declare show_nat.simps [simp del]

definition show_int :: "int \<Rightarrow> string" where
  "show_int i = (if i < 0 then CHR ''-'' # show_nat (nat (- i)) else show_nat (nat i))"

text \<open>
  Line 140: \<open>fmt.Sprintf("sgtmp-%s-%s-%d-%d", poolName, label, id, os.Getpid())\<close>.
  \<open>id\<close> is an \<open>int32\<close>, printed signed; a process identifier is a natural number.
\<close>

definition dbname_of :: "string \<Rightarrow> string \<Rightarrow> 32 word \<Rightarrow> nat \<Rightarrow> string" where
  "dbname_of poolName lbl ident p =
     ''sgtmp-'' @ poolName @ ''-'' @ lbl @ ''-'' @ show_int (sint ident) @ ''-'' @ show_nat p"

subsection \<open>Buffered channels\<close>

text \<open>
  \<open>make(chan T, n)\<close>: a buffer of capacity \<open>n\<close> and the queue of senders parked
  because the buffer was full. A receive takes the oldest buffered value and lets
  the first parked sender complete; with an empty buffer (capacity 0) it takes the
  value of the first parked sender directly.
\<close>

record 'a chan =
  cap :: nat
  buf :: "'a list"
  sendq :: "'a list"

definition make_chan :: "nat \<Rightarrow> 'a chan" where
  "make_chan n = \<lparr>cap = n, buf = [], sendq = []\<rparr>"

definition chan_send :: "'a chan \<Rightarrow> 'a \<Rightarrow> 'a chan" where
  "chan_send c x =
     (if length (buf c) < cap c then c\<lparr>buf := buf c @ [x]\<rparr> else c\<lparr>sendq := sendq c @ [x]\<rparr>)"

definition chan_recv :: "'a chan \<Rightarrow> ('a \<times> 'a chan) option" where
  "chan_recv c =
     (case buf c of
        x # xs \<Rightarrow>
          (case sendq c of
             [] \<Rightarrow> Some (x, c\<lparr>buf := xs\<rparr>)
           | s # ss \<Rightarrow> Some (x, c\<lparr>buf := xs @ [s], sendq := ss\<rparr>))
      | [] \<Rightarrow>
          (case sendq c of
             [] \<Rightarrow> None
           | s # ss \<Rightarrow> Some (s, c\<lparr>sendq := ss\<rparr>)))"

subsection \<open>Flags, the backend, the trace\<close>

text \<open>
  The package-level flags and \<open>label\<close> (lines 20 to 48), the process identifier,
  and a constant of the Go runtime: \<open>maxChanCap\<close> is the largest \<open>n\<close> for which
  \<open>make(chan *dbutil2.Handle, n)\<close> returns on the platform. For a larger \<open>n\<close>,
  as for a negative one, \<open>make\<close> panics (on linux/amd64, when 8 bytes times
  \<open>n\<close> exceed \<open>2\<^sup>4\<^sup>8\<close> less the channel header).
\<close>

record config =
  dropSchema :: bool
  createSchema :: bool
  truncate_flag :: bool   \<comment> \<open>the flag \<open>truncate\<close> (db.truncate)\<close>
  verbose :: bool
  initialPoolSize :: int
  label :: string
  pid :: nat
  maxChanCap :: int

datatype logmsg =
    Dropping int           \<comment> \<open>"(%d) Dropping schema..."\<close>
  | Creating int           \<comment> \<open>"(%d) Creating schema..."\<close>
  | Truncating int         \<comment> \<open>"(%d) Truncating all tables..."\<close>
  | Ready int              \<comment> \<open>"(%d) Pristine DBs ready."\<close>
  | Opened string          \<comment> \<open>"opened new DB (%s)"\<close>
  | GotNewDBs string       \<comment> \<open>"got new dbs: %s"\<close>

datatype 'h event =
    EvCreateDB string      \<comment> \<open>\<open>exec.Command("createdb", dbname).Run()\<close>\<close>
  | EvOpen string          \<comment> \<open>\<open>dbutil2.Open(dataSource, schema)\<close>\<close>
  | EvDrop 'h              \<comment> \<open>\<open>mdb.DropSchema()\<close>\<close>
  | EvCreate 'h            \<comment> \<open>\<open>mdb.CreateSchema()\<close>\<close>
  | EvTruncate 'h          \<comment> \<open>\<open>mdb.TruncateTables()\<close>\<close>
  | EvLog logmsg           \<comment> \<open>a line written to stderr by \<open>vlog\<close>\<close>

text \<open>
  The external collaborators. \<open>'h\<close> is the type of handles (\<open>*dbutil2.Handle\<close>),
  \<open>'s\<close> the type of schema values (\<open>dbutil2.Schema\<close>). For the calls that return
  an \<open>error\<close>, \<open>True\<close> means a non-nil error. \<open>schema_at\<close> is the memory holding
  schema objects: the value a non-nil schema pointer points to.
\<close>

record ('h, 's) env =
  createdb_fails :: "'h event list \<Rightarrow> string \<Rightarrow> bool"
  dbutil2_Open :: "'h event list \<Rightarrow> string \<Rightarrow> 's \<Rightarrow> 'h option"
  DropSchema_fails :: "'h event list \<Rightarrow> 'h \<Rightarrow> bool"
  CreateSchema_fails :: "'h event list \<Rightarrow> 'h \<Rightarrow> bool"
  TruncateTables_fails :: "'h event list \<Rightarrow> 'h \<Rightarrow> bool"
  DataSource :: "'h \<Rightarrow> string"
  schema_at :: "nat \<Rightarrow> 's"

subsection \<open>The pool object (lines 100 to 112)\<close>

datatype logger = StderrLogger | DiscardLogger

text \<open>
  The record describes a pool once \<open>start\<close> has set its fields: the only place
  that allocates a pool (line 67) runs \<open>start\<close> on it before the lock is released,
  so the nil maps, the nil channel and the nil logger of a fresh object are never
  used. \<open>dropped\<close> and \<open>created\<close> are \<open>map[int]bool\<close>: reading a missing key
  gives \<open>false\<close>.
\<close>

record 'h backgroundDBPool =
  schema :: "nat option"
  readyDBs :: "'h chan"
  dropped :: "int \<rightharpoonup> bool"
  created :: "int \<rightharpoonup> bool"
  nextID :: "32 word"
  vlog :: logger

definition map_index :: "(int \<rightharpoonup> bool) \<Rightarrow> int \<Rightarrow> bool" where
  "map_index m k = (case m k of Some v \<Rightarrow> v | None \<Rightarrow> False)"

definition vlog_Printf :: "'h backgroundDBPool \<Rightarrow> logmsg \<Rightarrow> 'h event list \<Rightarrow> 'h event list" where
  "vlog_Printf b msg tr = (case vlog b of StderrLogger \<Rightarrow> tr @ [EvLog msg] | DiscardLogger \<Rightarrow> tr)"

definition vlogf :: "config \<Rightarrow> 'h backgroundDBPool \<Rightarrow> logmsg \<Rightarrow> 'h event list \<Rightarrow> 'h event list" where
  "vlogf cfg b msg tr = (if verbose cfg then vlog_Printf b msg tr else tr)"

subsection \<open>prepareDBs (lines 153 to 188)\<close>

text \<open>
  The function runs with \<open>b.mu\<close> held from its first line to its return, so it is
  one atomic step on the pool and the trace. Its three blocks are three steps; a
  \<open>log.Fatal\<close> in one of them ends the process before the next.
\<close>

definition drop_step ::
  "('h, 's) env \<Rightarrow> config \<Rightarrow> int \<Rightarrow> 'h \<Rightarrow> bool \<Rightarrow> 'h backgroundDBPool \<times> 'h event list
     \<Rightarrow> unit result \<times> 'h backgroundDBPool \<times> 'h event list" where
  "drop_step e cfg ident mdb dropF s =
     (case s of (b, tr) \<Rightarrow>
        if dropF \<and> \<not> map_index (dropped b) ident then
          (let tr1 = vlogf cfg b (Dropping ident) tr in
           if DropSchema_fails e tr1 mdb then (Fatal SchemaDropFailed, b, tr1 @ [EvDrop mdb])
           else (Ok (), b\<lparr>dropped := (dropped b)(ident \<mapsto> True)\<rparr>, tr1 @ [EvDrop mdb]))
        else (Ok (), b, tr))"

definition create_step ::
  "('h, 's) env \<Rightarrow> config \<Rightarrow> int \<Rightarrow> 'h \<Rightarrow> bool \<Rightarrow> 'h backgroundDBPool \<times> 'h event list
     \<Rightarrow> unit result \<times> 'h backgroundDBPool \<times> 'h event list" where
  "create_step e cfg ident mdb createF s =
     (case s of (b, tr) \<Rightarrow>
        if createF \<and> \<not> map_index (created b) ident then
          (let tr1 = vlogf cfg b (Creating ident) tr in
           if CreateSchema_fails e tr1 mdb then (Fatal SchemaCreateFailed, b, tr1 @ [EvCreate mdb])
           else (Ok (), b\<lparr>created := (created b)(ident \<mapsto> True)\<rparr>, tr1 @ [EvCreate mdb]))
        else (Ok (), b, tr))"

definition truncate_step ::
  "('h, 's) env \<Rightarrow> config \<Rightarrow> int \<Rightarrow> 'h \<Rightarrow> bool \<Rightarrow> 'h backgroundDBPool \<times> 'h event list
     \<Rightarrow> unit result \<times> 'h backgroundDBPool \<times> 'h event list" where
  "truncate_step e cfg ident mdb truncateF s =
     (case s of (b, tr) \<Rightarrow>
        if truncateF then
          (let tr1 = vlogf cfg b (Truncating ident) tr in
           if TruncateTables_fails e tr1 mdb then (Fatal TruncateFailed, b, tr1 @ [EvTruncate mdb])
           else (Ok (), b, tr1 @ [EvTruncate mdb]))
        else (Ok (), b, tr))"

definition and_then ::
  "unit result \<times> 'st \<Rightarrow> ('st \<Rightarrow> unit result \<times> 'st) \<Rightarrow> unit result \<times> 'st" where
  "and_then m f = (case m of (Ok u, s) \<Rightarrow> f s | (Fatal x, s) \<Rightarrow> (Fatal x, s) | (Panic p, s) \<Rightarrow> (Panic p, s))"

definition prepareDBs ::
  "('h, 's) env \<Rightarrow> config \<Rightarrow> 'h backgroundDBPool \<Rightarrow> int \<Rightarrow> 'h \<Rightarrow> bool \<Rightarrow> bool \<Rightarrow> bool
     \<Rightarrow> 'h event list \<Rightarrow> unit result \<times> 'h backgroundDBPool \<times> 'h event list" where
  "prepareDBs e cfg b ident mdb dropF createF truncateF tr =
     and_then (and_then (and_then (drop_step e cfg ident mdb dropF (b, tr))
       (create_step e cfg ident mdb createF))
       (truncate_step e cfg ident mdb truncateF))
       (\<lambda>s. case s of (b', tr') \<Rightarrow> (Ok (), b', vlogf cfg b' (Ready ident) tr'))"

subsection \<open>The process state\<close>

text \<open>
  A goroutine started by \<open>go b.prepareNewDB(poolName)\<close>: the receiver, the
  argument, and whether it has started to run (has executed line 139).
\<close>

record goroutine =
  g_pool :: nat
  g_poolName :: string
  g_started :: bool

text \<open>
  \<open>backgroundDBPoolsByName\<close> is the \<open>map[string]*backgroundDBPool\<close> of line 44:
  a key is absent (\<open>None\<close>) or bound to a pointer, which may be \<open>nil\<close>
  (\<open>Some None\<close>). \<open>pools\<close> holds the pool objects allocated so far; the address
  of an object is its position. \<open>running\<close> holds, for each goroutine that is
  between line 139 and its end, its local variable \<open>id\<close>; the key is the index
  of the goroutine. \<open>CreateUnloggedTables\<close> is the variable of package dbutil2
  that \<open>start\<close> sets.
\<close>

record 'h state =
  backgroundDBPoolsByName :: "string \<rightharpoonup> nat option"
  pools :: "'h backgroundDBPool list"
  goroutines :: "goroutine list"
  running :: "nat \<rightharpoonup> 32 word"
  trace :: "'h event list"
  CreateUnloggedTables :: bool

text \<open>
  Reading and writing the pool object at an address. Go has no dangling pointers;
  where the model would read outside \<open>pools\<close> it stops like a nil dereference.
\<close>

definition pool_at :: "'h state \<Rightarrow> nat \<Rightarrow> 'h backgroundDBPool option" where
  "pool_at st r = (if r < length (pools st) then Some (pools st ! r) else None)"

definition set_pool :: "nat \<Rightarrow> 'h backgroundDBPool \<Rightarrow> 'h state \<Rightarrow> 'h state" where
  "set_pool r b st = st\<lparr>pools := (pools st)[r := b]\<rparr>"

definition go_prepareNewDB :: "nat \<Rightarrow> string \<Rightarrow> 'h state \<Rightarrow> 'h state" where
  "go_prepareNewDB r poolName st =
     st\<lparr>goroutines := goroutines st @ [\<lparr>g_pool = r, g_poolName = poolName, g_started = False\<rparr>]\<rparr>"

subsection \<open>start (lines 114 to 136)\<close>

text \<open>The loop of lines 133 to 135: \<open>for i := 0; i < *initialPoolSize; i++\<close>.\<close>

function start_loop :: "int \<Rightarrow> int \<Rightarrow> nat \<Rightarrow> string \<Rightarrow> 'h state \<Rightarrow> 'h state" where
  "start_loop i n r poolName st =
     (if i < n then start_loop (i + 1) n r poolName (go_prepareNewDB r poolName st) else st)"
  by pat_completeness auto
termination
  by (relation "measure (\<lambda>(i, n, r, poolName, st). nat (n - i))") auto

declare start_loop.simps [simp del]

text \<open>
  \<open>start\<close> runs on the pool object at address \<open>r\<close>. \<open>log.Fatal\<close> of line 118
  comes after the schema is bound; \<open>make\<close> of line 131 panics on a size that is
  negative or above \<open>maxChanCap\<close>.
\<close>

definition start :: "config \<Rightarrow> nat \<Rightarrow> string \<Rightarrow> nat option \<Rightarrow> 'h state \<Rightarrow> unit result \<times> 'h state" where
  "start cfg r poolName sch st =
     (case pool_at st r of
        None \<Rightarrow> (Panic NilDereference, st)
      | Some b \<Rightarrow>
          if label cfg = [] then (Fatal ConfigError, set_pool r (b\<lparr>schema := sch\<rparr>) st)
          else if initialPoolSize cfg < 0 \<or> maxChanCap cfg < initialPoolSize cfg then
            (Panic MakeChanSize,
             (set_pool r (b\<lparr>schema := sch,
                            vlog := (if verbose cfg then StderrLogger else DiscardLogger),
                            created := Map.empty, dropped := Map.empty\<rparr>) st)
               \<lparr>CreateUnloggedTables := True\<rparr>)
          else
            (Ok (),
             start_loop 0 (initialPoolSize cfg) r poolName
               ((set_pool r (b\<lparr>schema := sch,
                               vlog := (if verbose cfg then StderrLogger else DiscardLogger),
                               created := Map.empty, dropped := Map.empty,
                               readyDBs := make_chan (nat (initialPoolSize cfg))\<rparr>) st)
                  \<lparr>CreateUnloggedTables := True\<rparr>)))"

subsection \<open>prepareNewDB (lines 138 to 151)\<close>

definition atomic_AddInt32 :: "32 word \<Rightarrow> 32 word \<Rightarrow> 32 word" where
  "atomic_AddInt32 v delta = v + delta"

text \<open>
  Lines 140 to 150, with the identity that line 139 returned. The error of
  \<open>createdb\<close> is discarded (\<open>_ = ...Run()\<close>). \<open>*b.schema\<close> is evaluated for the
  call of \<open>dbutil2.Open\<close>, after \<open>createdb\<close> has run. The send of line 150 parks
  the goroutine when the buffer is full.
\<close>

definition prepareNewDB_rest ::
  "('h, 's) env \<Rightarrow> config \<Rightarrow> nat \<Rightarrow> string \<Rightarrow> 32 word \<Rightarrow> 'h state \<Rightarrow> unit result \<times> 'h state" where
  "prepareNewDB_rest e cfg r poolName ident st =
     (case pool_at st r of
        None \<Rightarrow> (Panic NilDereference, st)
      | Some b \<Rightarrow>
          (let dbname = dbname_of poolName (label cfg) ident (pid cfg);
               _ = createdb_fails e (trace st) dbname;
               tr1 = trace st @ [EvCreateDB dbname]
           in case schema b of
                None \<Rightarrow> (Panic NilDereference, st\<lparr>trace := tr1\<rparr>)
              | Some a \<Rightarrow>
                  (case dbutil2_Open e tr1 (''dbname='' @ dbname) (schema_at e a) of
                     None \<Rightarrow>
                       (Fatal OpenFailed, st\<lparr>trace := tr1 @ [EvOpen (''dbname='' @ dbname)]\<rparr>)
                   | Some dbh \<Rightarrow>
                       (case prepareDBs e cfg b (sint ident) dbh (dropSchema cfg) (createSchema cfg)
                               (truncate_flag cfg) (tr1 @ [EvOpen (''dbname='' @ dbname)]) of
                          (Ok u, b2, tr2) \<Rightarrow>
                            (Ok (),
                             (set_pool r (b2\<lparr>readyDBs := chan_send (readyDBs b2) dbh\<rparr>) st)
                               \<lparr>trace := vlogf cfg b2 (Opened dbname) tr2\<rparr>)
                        | (Fatal x, b2, tr2) \<Rightarrow> (Fatal x, (set_pool r b2 st)\<lparr>trace := tr2\<rparr>)
                        | (Panic p, b2, tr2) \<Rightarrow> (Panic p, (set_pool r b2 st)\<lparr>trace := tr2\<rparr>)))))"

text \<open>A whole run of \<open>prepareNewDB\<close>: line 139, then the rest.\<close>

definition prepareNewDB ::
  "('h, 's) env \<Rightarrow> config \<Rightarrow> nat \<Rightarrow> string \<Rightarrow> 'h state \<Rightarrow> unit result \<times> 'h state" where
  "prepareNewDB e cfg r poolName st =
     (case pool_at st r of
        None \<Rightarrow> (Panic NilDereference, st)
      | Some b \<Rightarrow>
          (let ident = atomic_AddInt32 (nextID b) 1
           in prepareNewDB_rest e cfg r poolName ident (set_pool r (b\<lparr>nextID := ident\<rparr>) st)))"

text \<open>
  One step of entry \<open>i\<close> of the goroutine table. A goroutine runs in two steps,
  so that other goroutines can run between them: first line 139, which gives it
  its identity, then lines 140 to 150. Between the two, goroutines that started
  later may finish and send their handles first. A step of a goroutine that has
  finished, or of an index outside the table, does nothing.
\<close>

definition run_goroutine ::
  "('h, 's) env \<Rightarrow> config \<Rightarrow> nat \<Rightarrow> 'h state \<Rightarrow> unit result \<times> 'h state" where
  "run_goroutine e cfg i st =
     (if i < length (goroutines st) then
        (let g = goroutines st ! i in
         if \<not> g_started g then
           (case pool_at st (g_pool g) of
              None \<Rightarrow> (Panic NilDereference, st)
            | Some b \<Rightarrow>
                (let ident = atomic_AddInt32 (nextID b) 1
                 in (Ok (),
                     (set_pool (g_pool g) (b\<lparr>nextID := ident\<rparr>) st)
                       \<lparr>goroutines := (goroutines st)[i := g\<lparr>g_started := True\<rparr>],
                        running := (running st)(i \<mapsto> ident)\<rparr>)))
         else
           (case running st i of
              None \<Rightarrow> (Ok (), st)
            | Some ident \<Rightarrow>
                prepareNewDB_rest e cfg (g_pool g) (g_poolName g) ident
                  (st\<lparr>running := (running st)(i := None)\<rparr>)))
      else (Ok (), st))"

subsection \<open>pristineDBs (lines 63 to 94)\<close>

definition Second :: nat where
  "Second = 1000000000"

definition timeout :: nat where
  "timeout = 45 * Second"

text \<open>
  The \<open>select\<close> of lines 84 to 92 on the pool at address \<open>r\<close>. A value that can
  be received is received at once. Otherwise the scheduled steps of goroutines
  run one after the other until one of them has sent; a \<open>log.Fatal\<close> or a panic
  in one of them ends the process, the waiting caller included. When no step is
  left to run, \<open>time.After(timeout)\<close> fires.
\<close>

fun select_readyDBs ::
  "('h, 's) env \<Rightarrow> config \<Rightarrow> nat \<Rightarrow> nat list \<Rightarrow> 'h state \<Rightarrow> 'h result \<times> 'h state" where
  "select_readyDBs e cfg r sched st =
     (case pool_at st r of
        None \<Rightarrow> (Panic NilDereference, st)
      | Some b \<Rightarrow>
          (case chan_recv (readyDBs b) of
             Some (dbh, c) \<Rightarrow>
               (Ok dbh,
                (set_pool r (b\<lparr>readyDBs := c\<rparr>) st)
                  \<lparr>trace := vlogf cfg b (GotNewDBs (DataSource e dbh)) (trace st)\<rparr>)
           | None \<Rightarrow>
               (case sched of
                  [] \<Rightarrow> (Fatal (ProvisionTimeout timeout), st)
                | i # rest \<Rightarrow>
                    (case run_goroutine e cfg i st of
                       (Ok u, st') \<Rightarrow> select_readyDBs e cfg r rest st'
                     | (Fatal x, st') \<Rightarrow> (Fatal x, st')
                     | (Panic p, st') \<Rightarrow> (Panic p, st')))))"

declare select_readyDBs.simps [simp del]

text \<open>
  \<open>&backgroundDBPool{}\<close>, before \<open>start\<close> has set its fields: the counter is 0
  and the schema nil; the other fields are written by \<open>start\<close> before they are
  read.
\<close>

definition zero_pool :: "'h backgroundDBPool" where
  "zero_pool = \<lparr>schema = None, readyDBs = make_chan 0, dropped = Map.empty, created = Map.empty,
                 nextID = 0, vlog = DiscardLogger\<rparr>"

text \<open>\<open>backgroundDBPoolsByName[poolName]\<close> as a value: \<open>nil\<close> for a missing key.\<close>

definition pools_index :: "(string \<rightharpoonup> nat option) \<Rightarrow> string \<Rightarrow> nat option" where
  "pools_index m k = (case m k of None \<Rightarrow> None | Some p \<Rightarrow> p)"

text \<open>Lines 64 to 71, executed with \<open>backgroundDBPoolsLock\<close> held.\<close>

definition pristineDBs_pool ::
  "config \<Rightarrow> string \<Rightarrow> nat option \<Rightarrow> 'h state \<Rightarrow> (nat option) result \<times> 'h state" where
  "pristineDBs_pool cfg poolName sch st =
     (if backgroundDBPoolsByName st poolName = None then
        (let r = length (pools st);
             st1 = st\<lparr>pools := pools st @ [zero_pool],
                      backgroundDBPoolsByName := (backgroundDBPoolsByName st)(poolName \<mapsto> Some r)\<rparr>
         in case start cfg r poolName sch st1 of
              (Ok u, st2) \<Rightarrow> (Ok (pools_index (backgroundDBPoolsByName st2) poolName), st2)
            | (Fatal x, st2) \<Rightarrow> (Fatal x, st2)
            | (Panic p, st2) \<Rightarrow> (Panic p, st2))
      else (Ok (pools_index (backgroundDBPoolsByName st) poolName), st))"

definition pristineDBs ::
  "('h, 's) env \<Rightarrow> config \<Rightarrow> string \<Rightarrow> nat option \<Rightarrow> nat list \<Rightarrow> 'h state
     \<Rightarrow> 'h result \<times> 'h state" where
  "pristineDBs e cfg poolName sch sched st =
     (case pristineDBs_pool cfg poolName sch st of
        (Fatal x, st1) \<Rightarrow> (Fatal x, st1)
      | (Panic p, st1) \<Rightarrow> (Panic p, st1)
      | (Ok None, st1) \<Rightarrow> (Fatal (PoolNotAvailable poolName), st1)
      | (Ok (Some r), st1) \<Rightarrow>
          (case pool_at st1 r of
             None \<Rightarrow> (Panic NilDereference, st1)
           | Some b \<Rightarrow>
               if sch \<noteq> None \<and> schema b \<noteq> sch then (Fatal (SchemaMismatch poolName), st1)
               else select_readyDBs e cfg r sched (go_prepareNewDB r poolName st1)))"

subsection \<open>The identities of successive provisioning runs\<close>


subsection \<open>Schedules, sequences of calls, and what a wait observes\<close>

text \<open>The scheduled steps run in order; the first that ends the process is the last.\<close>

fun run_goroutines ::
  "('h, 's) env \<Rightarrow> config \<Rightarrow> nat list \<Rightarrow> 'h state \<Rightarrow> unit result \<times> 'h state" where
  "run_goroutines e cfg [] st = (Ok (), st)"
| "run_goroutines e cfg (i # rest) st =
     (case run_goroutine e cfg i st of
        (Ok u, st') \<Rightarrow> run_goroutines e cfg rest st'
      | (Fatal x, st') \<Rightarrow> (Fatal x, st')
      | (Panic p, st') \<Rightarrow> (Panic p, st'))"

text \<open>
  In state \<open>st\<close> a receive on \<open>readyDBs\<close> of the pool at address \<open>r\<close> can proceed
  and yields the handle \<open>h\<close>.
\<close>

definition delivers :: "'h state \<Rightarrow> nat \<Rightarrow> 'h \<Rightarrow> bool" where
  "delivers st r h =
     (case pool_at st r of
        None \<Rightarrow> False
      | Some b \<Rightarrow> (case chan_recv (readyDBs b) of None \<Rightarrow> False | Some (h', c) \<Rightarrow> h' = h))"

text \<open>
  The failures of a provisioning goroutine: the \<open>log.Fatal\<close> calls of
  \<open>prepareNewDB\<close> and \<open>prepareDBs\<close>, and the dereference of a nil pointer.
\<close>

definition background_failure :: "'a result \<Rightarrow> bool" where
  "background_failure res \<longleftrightarrow>
     res = Fatal OpenFailed \<or> res = Fatal SchemaDropFailed \<or> res = Fatal SchemaCreateFailed \<or>
     res = Fatal TruncateFailed \<or> res = Panic NilDereference"

text \<open>
  What a provisioning run and a wait leave as it is: the registry, the schema
  bound to each pool, and which goroutines exist for which pool.
\<close>

definition frame :: "'h state \<Rightarrow> 'h state \<Rightarrow> bool" where
  "frame st st' \<longleftrightarrow>
     backgroundDBPoolsByName st' = backgroundDBPoolsByName st \<and>
     map schema (pools st') = map schema (pools st) \<and>
     map g_pool (goroutines st') = map g_pool (goroutines st) \<and>
     map g_poolName (goroutines st') = map g_poolName (goroutines st)"

text \<open>
  A sequence of calls of \<open>pristineDBs\<close>, each with its pool name, its schema
  pointer and the schedule of its wait. The process ends with the first call that
  does not return. \<open>constructed_for\<close> counts the pool objects that the calls for
  the name \<open>n\<close> allocate.
\<close>

type_synonym call = "string \<times> nat option \<times> nat list"

fun run_calls :: "('h, 's) env \<Rightarrow> config \<Rightarrow> call list \<Rightarrow> 'h state \<Rightarrow> 'h state" where
  "run_calls e cfg [] st = st"
| "run_calls e cfg ((poolName, sch, sched) # cs) st =
     (case pristineDBs e cfg poolName sch sched st of
        (Ok h, st') \<Rightarrow> run_calls e cfg cs st'
      | (Fatal x, st') \<Rightarrow> st'
      | (Panic p, st') \<Rightarrow> st')"

fun constructed_for ::
  "('h, 's) env \<Rightarrow> config \<Rightarrow> string \<Rightarrow> call list \<Rightarrow> 'h state \<Rightarrow> nat" where
  "constructed_for e cfg n [] st = 0"
| "constructed_for e cfg n ((poolName, sch, sched) # cs) st =
     (case pristineDBs e cfg poolName sch sched st of
        (res, st') \<Rightarrow>
          (if poolName = n then length (pools st') - length (pools st) else 0) +
          (case res of
             Ok h \<Rightarrow> constructed_for e cfg n cs st'
           | Fatal x \<Rightarrow> 0
           | Panic p \<Rightarrow> 0))"

subsection \<open>The resource names of a run\<close>

text \<open>
  The names passed to \<open>createdb\<close> in a trace, and the names that a run of lines
  140 to 150 with the identity \<open>ident\<close> adds to them.
\<close>

fun created_names :: "'h event list \<Rightarrow> string list" where
  "created_names [] = []"
| "created_names (EvCreateDB n # tr) = n # created_names tr"
| "created_names (ev # tr) = created_names tr"

definition run_names ::
  "('h, 's) env \<Rightarrow> config \<Rightarrow> nat \<Rightarrow> string \<Rightarrow> 32 word \<Rightarrow> 'h state \<Rightarrow> string list" where
  "run_names e cfg r poolName ident st =
     drop (length (created_names (trace st)))
       (created_names (trace (snd (prepareNewDB_rest e cfg r poolName ident st))))"

subsection \<open>Counting backend operations in a trace\<close>

fun is_drop :: "'h event \<Rightarrow> bool" where
  "is_drop (EvDrop h) = True"
| "is_drop _ = False"

fun is_create :: "'h event \<Rightarrow> bool" where
  "is_create (EvCreate h) = True"
| "is_create _ = False"

fun is_truncate :: "'h event \<Rightarrow> bool" where
  "is_truncate (EvTruncate h) = True"
| "is_truncate _ = False"

fun is_open :: "'h event \<Rightarrow> bool" where
  "is_open (EvOpen ds) = True"
| "is_open _ = False"

definition opens :: "'h event list \<Rightarrow> nat" where
  "opens tr = length (filter is_open tr)"

definition drops :: "'h event list \<Rightarrow> nat" where
  "drops tr = length (filter is_drop tr)"

definition creates :: "'h event list \<Rightarrow> nat" where
  "creates tr = length (filter is_create tr)"

definition truncates :: "'h event list \<Rightarrow> nat" where
  "truncates tr = length (filter is_truncate tr)"

subsection \<open>Concrete inputs\<close>

text \<open>
  A backend on which nothing fails, with data source names as handles, and the
  default values of the flags (lines 21 to 31) under the label of a test binary
  \<open>testdb.test\<close>.
\<close>

definition env_ok :: "(string, nat) env" where
  "env_ok = \<lparr>createdb_fails = (\<lambda>tr n. False),
             dbutil2_Open = (\<lambda>tr ds s. Some ds),
             DropSchema_fails = (\<lambda>tr h. False),
             CreateSchema_fails = (\<lambda>tr h. False),
             TruncateTables_fails = (\<lambda>tr h. False),
             DataSource = (\<lambda>h. h),
             schema_at = (\<lambda>a. 0)\<rparr>"

definition cfg_default :: config where
  "cfg_default = \<lparr>dropSchema = True, createSchema = True, truncate_flag = True, verbose = False,
                  initialPoolSize = 8, label = ''testdb'', pid = 4242,
                  maxChanCap = 35184372088820\<rparr>"

text \<open>A pool whose ledger already records identity 5 as dropped and created.\<close>

definition pool_prepared5 :: "string backgroundDBPool" where
  "pool_prepared5 = zero_pool\<lparr>dropped := [5 \<mapsto> True], created := [5 \<mapsto> True]\<rparr>"

text \<open>
  A process in which the pool \<open>pkgA\<close> exists, bound to the schema object at
  address 0, and the same process when the counter of the pool has reached
  \<open>2\<^sup>3\<^sup>1 - 2\<close>.
\<close>

definition pool_pkgA :: "string backgroundDBPool" where
  "pool_pkgA = zero_pool\<lparr>schema := Some 0, readyDBs := make_chan 8\<rparr>"

definition st_pkgA :: "string state" where
  "st_pkgA = \<lparr>backgroundDBPoolsByName = [''pkgA'' \<mapsto> Some 0], pools = [pool_pkgA],
              goroutines = [], running = Map.empty, trace = [],
              CreateUnloggedTables = True\<rparr>"


text \<open>A backend on which \<open>createdb\<close> always fails, and one on which \<open>dbutil2.Open\<close> does.\<close>

definition env_no_createdb :: "(string, nat) env" where
  "env_no_createdb = env_ok\<lparr>createdb_fails := (\<lambda>tr n. True)\<rparr>"

definition env_no_open :: "(string, nat) env" where
  "env_no_open = env_ok\<lparr>dbutil2_Open := (\<lambda>tr ds s. None)\<rparr>"

text \<open>
  A process that has not created a pool yet; a pool size of 2; the state inside
  the first call for \<open>pkgA\<close> when the pool object is allocated and registered and
  \<open>start\<close> is about to run; and a process in which \<open>pkgA\<close> was created with a
  nil schema.
\<close>

definition st_init :: "string state" where
  "st_init = \<lparr>backgroundDBPoolsByName = Map.empty, pools = [], goroutines = [],
              running = Map.empty, trace = [], CreateUnloggedTables = False\<rparr>"

definition cfg_small :: config where
  "cfg_small = cfg_default\<lparr>initialPoolSize := 2\<rparr>"

definition st_alloc :: "string state" where
  "st_alloc = st_init\<lparr>pools := [zero_pool], backgroundDBPoolsByName := [''pkgA'' \<mapsto> Some 0]\<rparr>"

definition st_nil :: "string state" where
  "st_nil = st_init\<lparr>backgroundDBPoolsByName := [''pkgA'' \<mapsto> Some 0],
                    pools := [zero_pool\<lparr>readyDBs := make_chan 2\<rparr>]\<rparr>"

text \<open>
  A test binary named \<open>-.test\<close>, whose label is \<open>-\<close>, with the pools \<open>a\<close> and
  \<open>a-\<close>: the counter of the first has wrapped and stands at \<open>- 6\<close>, that of the
  second stands at 4.
\<close>

definition cfg_dash :: config where
  "cfg_dash = cfg_default\<lparr>label := ''-''\<rparr>"

definition st_dash :: "string state" where
  "st_dash = \<lparr>backgroundDBPoolsByName = [''a'' \<mapsto> Some 0, ''a-'' \<mapsto> Some 1],
              pools = [pool_pkgA\<lparr>nextID := 4294967290\<rparr>, pool_pkgA\<lparr>nextID := 4\<rparr>],
              goroutines = [], running = Map.empty, trace = [],
              CreateUnloggedTables = True\<rparr>"



section \<open>Properties\<close>

subsection \<open>The preparation ledger\<close>

lemma vlogf_counts [simp]:
  "drops (vlogf cfg b m tr) = drops tr"
  "creates (vlogf cfg b m tr) = creates tr"
  "truncates (vlogf cfg b m tr) = truncates tr"
  by (simp_all add: vlogf_def vlog_Printf_def drops_def creates_def truncates_def split: logger.splits)

lemma counts_snoc [simp]:
  "drops (tr @ [ev]) = drops tr + (if is_drop ev then 1 else 0)"
  "creates (tr @ [ev]) = creates tr + (if is_create ev then 1 else 0)"
  "truncates (tr @ [ev]) = truncates tr + (if is_truncate ev then 1 else 0)"
  by (simp_all add: drops_def creates_def truncates_def)

lemma and_then_Ok:
  "and_then m f = (Ok u, s') \<Longrightarrow> \<exists>s. m = (Ok (), s) \<and> f s = (Ok u, s')"
  by (cases m) (auto simp: and_then_def split: result.splits)

lemma drop_step_Ok:
  "drop_step e cfg ident mdb True (b, tr) = (Ok u, b1, tr1) \<Longrightarrow>
     map_index (dropped b1) ident \<and> created b1 = created b \<and>
     drops tr1 = drops tr + (if map_index (dropped b) ident then 0 else 1) \<and>
     creates tr1 = creates tr \<and> truncates tr1 = truncates tr"
  by (auto simp: drop_step_def Let_def map_index_def split: if_splits)

lemma create_step_Ok:
  "create_step e cfg ident mdb True (b, tr) = (Ok u, b1, tr1) \<Longrightarrow>
     map_index (created b1) ident \<and> dropped b1 = dropped b \<and>
     creates tr1 = creates tr + (if map_index (created b) ident then 0 else 1) \<and>
     drops tr1 = drops tr \<and> truncates tr1 = truncates tr"
  by (auto simp: create_step_def Let_def map_index_def split: if_splits)

lemma truncate_step_any:
  "truncate_step e cfg ident mdb t (b, tr) = (res, b1, tr1) \<Longrightarrow>
     b1 = b \<and> truncates tr1 = truncates tr + (if t then 1 else 0) \<and>
     drops tr1 = drops tr \<and> creates tr1 = creates tr"
  by (auto simp: truncate_step_def Let_def split: if_splits)

lemma prepareDBs_Ok:
  assumes "prepareDBs e cfg b ident mdb True True t tr = (Ok u, b1, tr1)"
  shows "map_index (dropped b1) ident \<and> map_index (created b1) ident \<and>
     drops tr1 = drops tr + (if map_index (dropped b) ident then 0 else 1) \<and>
     creates tr1 = creates tr + (if map_index (created b) ident then 0 else 1) \<and>
     truncates tr1 = truncates tr + (if t then 1 else 0)"
proof -
  from assms obtain s3 where s3: "and_then (and_then (drop_step e cfg ident mdb True (b, tr))
       (create_step e cfg ident mdb True)) (truncate_step e cfg ident mdb t) = (Ok (), s3)"
    and fin: "(case s3 of (b', tr') \<Rightarrow> (Ok (), b', vlogf cfg b' (Ready ident) tr')) = (Ok u, b1, tr1)"
    unfolding prepareDBs_def by (blast dest: and_then_Ok)
  from s3 obtain s2 where s2: "and_then (drop_step e cfg ident mdb True (b, tr))
       (create_step e cfg ident mdb True) = (Ok (), s2)"
    and t: "truncate_step e cfg ident mdb t s2 = (Ok (), s3)"
    by (blast dest: and_then_Ok)
  from s2 obtain s1 where s1: "drop_step e cfg ident mdb True (b, tr) = (Ok (), s1)"
    and c: "create_step e cfg ident mdb True s1 = (Ok (), s2)"
    by (blast dest: and_then_Ok)
  obtain ba tra where [simp]: "s1 = (ba, tra)" by (cases s1)
  obtain bb trb where [simp]: "s2 = (bb, trb)" by (cases s2)
  obtain bc trc where [simp]: "s3 = (bc, trc)" by (cases s3)
  from s1 have s1': "drop_step e cfg ident mdb True (b, tr) = (Ok (), ba, tra)" by simp
  from c have c1: "create_step e cfg ident mdb True (ba, tra) = (Ok (), bb, trb)" by simp
  from t have t1: "truncate_step e cfg ident mdb t (bb, trb) = (Ok (), bc, trc)" by simp
  note d = drop_step_Ok [OF s1']
  note c' = create_step_Ok [OF c1]
  note t' = truncate_step_any [OF t1]
  from fin have "b1 = bc" "tr1 = vlogf cfg bc (Ready ident) trc" by auto
  with d c' t' show ?thesis by simp
qed

lemma and_then_any:
  "and_then m f = (res, s') \<Longrightarrow>
     (\<exists>s. m = (Ok (), s) \<and> f s = (res, s')) \<or> (m = (res, s') \<and> res \<noteq> Ok ())"
  by (cases m) (auto simp: and_then_def split: result.splits)

lemma drop_step_done:
  "map_index (dropped b) ident \<Longrightarrow> drop_step e cfg ident mdb d (b, tr) = (Ok (), b, tr)"
  by (simp add: drop_step_def)

lemma create_step_done:
  "map_index (created b) ident \<Longrightarrow> create_step e cfg ident mdb d (b, tr) = (Ok (), b, tr)"
  by (simp add: create_step_def)

lemma prepareDBs_done:
  assumes "map_index (dropped b) ident" "map_index (created b) ident"
    and "prepareDBs e cfg b ident mdb d c t tr = (res, b1, tr1)"
  shows "drops tr1 = drops tr \<and> creates tr1 = creates tr \<and>
     truncates tr1 = truncates tr + (if t then 1 else 0)"
proof -
  obtain r3 b3 tr3 where t3: "truncate_step e cfg ident mdb t (b, tr) = (r3, b3, tr3)"
    by (metis prod_cases3)
  note t' = truncate_step_any [OF t3]
  have "prepareDBs e cfg b ident mdb d c t tr =
     and_then (r3, b3, tr3) (\<lambda>s. case s of (b', tr') \<Rightarrow> (Ok (), b', vlogf cfg b' (Ready ident) tr'))"
    using assms(1,2) t3 by (simp add: prepareDBs_def drop_step_done create_step_done and_then_def)
  with assms(3) have "and_then (r3, b3, tr3)
     (\<lambda>s. case s of (b', tr') \<Rightarrow> (Ok (), b', vlogf cfg b' (Ready ident) tr')) = (res, b1, tr1)"
    by simp
  then have "tr1 = tr3 \<or> tr1 = vlogf cfg b3 (Ready ident) tr3"
    by (auto simp: and_then_def split: result.splits)
  with t' show ?thesis by auto
qed

lemmas prepare_eval = prepareDBs_def and_then_def drop_step_def create_step_def truncate_step_def
  map_index_def vlogf_def vlog_Printf_def

text \<open>
  Claim C1, as amended. Take a pool whose ledger does not yet record the identity
  as dropped or created, and two invocations of \<open>prepareDBs\<close> for that identity
  with \<open>drop\<close> and \<open>create\<close> set, the second starting where the first returned
  (so the first met no \<open>log.Fatal\<close>). Whatever the truncate flags \<open>t1\<close> and
  \<open>t2\<close>, the handles and the backend, and however the second invocation ends,
  \<open>DropSchema\<close> has been called exactly once and \<open>CreateSchema\<close> exactly once
  over both invocations, and \<open>TruncateTables\<close> once in each invocation whose
  truncate flag is set.
\<close>

theorem prepareDBs_twice:
  assumes "\<not> map_index (dropped b) ident" and "\<not> map_index (created b) ident"
    and "prepareDBs e cfg b ident mdb True True t1 tr = (Ok (), b1, tr1)"
    and "prepareDBs e cfg b1 ident mdb' True True t2 tr1 = (res, b2, tr2)"
  shows "drops tr2 = drops tr + 1 \<and> creates tr2 = creates tr + 1 \<and>
     truncates tr2 = truncates tr + (if t1 then 1 else 0) + (if t2 then 1 else 0)"
proof -
  note first = prepareDBs_Ok [OF assms(3)]
  from first have led: "map_index (dropped b1) ident" "map_index (created b1) ident"
    by simp_all
  note second = prepareDBs_done [OF led assms(4)]
  from first second assms(1,2) show ?thesis by simp
qed

theorem prepareDBs_twice_witness:
  "\<not> map_index (dropped (zero_pool :: string backgroundDBPool)) 5 \<and>
   \<not> map_index (created (zero_pool :: string backgroundDBPool)) 5 \<and>
   prepareDBs env_ok cfg_default zero_pool 5 ''h'' True True True []
     = (Ok (), pool_prepared5, [EvDrop ''h'', EvCreate ''h'', EvTruncate ''h'']) \<and>
   prepareDBs env_ok cfg_default pool_prepared5 5 ''h'' True True True
       [EvDrop ''h'', EvCreate ''h'', EvTruncate ''h'']
     = (Ok (), pool_prepared5, [EvDrop ''h'', EvCreate ''h'', EvTruncate ''h'', EvTruncate ''h'']) \<and>
   drops [EvDrop ''h'', EvCreate ''h'', EvTruncate ''h'', EvTruncate ''h''] = 1 \<and>
   creates [EvDrop ''h'', EvCreate ''h'', EvTruncate ''h'', EvTruncate ''h''] = 1 \<and>
   truncates [EvDrop ''h'', EvCreate ''h'', EvTruncate ''h'', EvTruncate ''h''] = 2"
proof -
  have a: "\<not> map_index (dropped (zero_pool :: string backgroundDBPool)) 5"
    and b: "\<not> map_index (created (zero_pool :: string backgroundDBPool)) 5"
    by (simp_all add: zero_pool_def map_index_def)
  have c: "prepareDBs env_ok cfg_default zero_pool 5 ''h'' True True True []
     = (Ok (), pool_prepared5, [EvDrop ''h'', EvCreate ''h'', EvTruncate ''h''])"
    by (simp add: prepare_eval env_ok_def cfg_default_def zero_pool_def pool_prepared5_def)
  have d: "prepareDBs env_ok cfg_default pool_prepared5 5 ''h'' True True True
       [EvDrop ''h'', EvCreate ''h'', EvTruncate ''h'']
     = (Ok (), pool_prepared5, [EvDrop ''h'', EvCreate ''h'', EvTruncate ''h'', EvTruncate ''h''])"
    by (simp add: prepare_eval env_ok_def cfg_default_def zero_pool_def pool_prepared5_def)
  from prepareDBs_twice [OF a b c d] a b c d show ?thesis
    by (simp add: drops_def creates_def truncates_def)
qed

text \<open>
  Without the condition on the ledger the count is not one: on a pool that
  already records identity 5, two invocations with \<open>drop\<close> and \<open>create\<close> set
  both return normally and call neither \<open>DropSchema\<close> nor \<open>CreateSchema\<close>.
\<close>

theorem prepareDBs_twice_counterexample:
  "prepareDBs env_ok cfg_default pool_prepared5 5 ''h'' True True True []
     = (Ok (), pool_prepared5, [EvTruncate ''h'']) \<and>
   prepareDBs env_ok cfg_default pool_prepared5 5 ''h'' True True True [EvTruncate ''h'']
     = (Ok (), pool_prepared5, [EvTruncate ''h'', EvTruncate ''h'']) \<and>
   drops [EvTruncate ''h'', EvTruncate ''h''] = 0 \<and>
   creates [EvTruncate ''h'', EvTruncate ''h''] = 0"
  by (simp add: prepare_eval env_ok_def cfg_default_def zero_pool_def pool_prepared5_def
      drops_def creates_def)

subsection \<open>Resource names\<close>

lemma digit_cases: "d < 10 \<Longrightarrow> d \<in> {0, 1, 2, 3, 4, 5, 6, 7, 8, 9::nat}"
  by auto

lemma digit_char_not_dash: "d < 10 \<Longrightarrow> digit_char d \<noteq> CHR ''-''"
  by (drule digit_cases) (auto simp: digit_char_def)

lemma digit_char_inj: "d < 10 \<Longrightarrow> d' < 10 \<Longrightarrow> digit_char d = digit_char d' \<Longrightarrow> d = d'"
  by (drule digit_cases, drule digit_cases) (auto simp: digit_char_def)

lemma show_nat_not_Nil: "show_nat n \<noteq> []"
  by (subst show_nat.simps) simp

lemma show_nat_no_dash: "CHR ''-'' \<notin> set (show_nat n)"
proof (induction n rule: show_nat.induct)
  case (1 n)
  show ?case
  proof (cases "n < 10")
    case True
    then show ?thesis
      using digit_char_not_dash [of n] by (subst show_nat.simps) auto
  next
    case False
    with 1 have "CHR ''-'' \<notin> set (show_nat (n div 10))" by simp
    moreover have "digit_char (n mod 10) \<noteq> CHR ''-''"
      by (rule digit_char_not_dash) simp
    ultimately show ?thesis
      using False by (subst show_nat.simps) auto
  qed
qed

lemma show_nat_inj: "show_nat n = show_nat m \<Longrightarrow> n = m"
proof (induction n arbitrary: m rule: show_nat.induct)
  case (1 n)
  show ?case
  proof (cases "n < 10")
    case n: True
    show ?thesis
    proof (cases "m < 10")
      case True
      with n 1(2) show ?thesis
        by (simp add: show_nat.simps [of n] show_nat.simps [of m] digit_char_inj)
    next
      case False
      with n 1(2) show ?thesis
        using show_nat_not_Nil [of "m div 10"]
        by (simp add: show_nat.simps [of n] show_nat.simps [of m])
    qed
  next
    case n: False
    show ?thesis
    proof (cases "m < 10")
      case True
      with n 1(2) show ?thesis
        using show_nat_not_Nil [of "n div 10"]
        by (simp add: show_nat.simps [of n] show_nat.simps [of m])
    next
      case False
      with n 1(2) have eq: "show_nat (n div 10) = show_nat (m div 10)"
        and dg: "digit_char (n mod 10) = digit_char (m mod 10)"
        by (simp_all add: show_nat.simps [of n] show_nat.simps [of m])
      from 1(1) [OF n eq] have "n div 10 = m div 10" .
      moreover from dg have "n mod 10 = m mod 10"
        by (intro digit_char_inj) simp_all
      ultimately show ?thesis
        by (metis div_mult_mod_eq)
    qed
  qed
qed

lemma show_nat_hd: "\<exists>c cs. show_nat n = c # cs \<and> c \<noteq> CHR ''-''"
  using show_nat_not_Nil [of n] show_nat_no_dash [of n]
  by (cases "show_nat n") auto

lemma show_int_inj: "show_int i = show_int j \<Longrightarrow> i = j"
proof -
  assume eq: "show_int i = show_int j"
  obtain c cs where i: "show_nat (nat i) = c # cs" "c \<noteq> CHR ''-''"
    using show_nat_hd by blast
  obtain d ds where j: "show_nat (nat j) = d # ds" "d \<noteq> CHR ''-''"
    using show_nat_hd by blast
  consider "i < 0" "j < 0" | "0 \<le> i" "0 \<le> j" | "i < 0" "0 \<le> j" | "0 \<le> i" "j < 0"
    by linarith
  then show "i = j"
  proof cases
    case 1
    with eq have "show_nat (nat (- i)) = show_nat (nat (- j))" by (simp add: show_int_def)
    then have "nat (- i) = nat (- j)" by (rule show_nat_inj)
    with 1 show ?thesis by simp
  next
    case 2
    with eq have "show_nat (nat i) = show_nat (nat j)" by (simp add: show_int_def)
    then have "nat i = nat j" by (rule show_nat_inj)
    with 2 show ?thesis by simp
  next
    case 3
    with eq j show ?thesis by (simp add: show_int_def)
  next
    case 4
    with eq i show ?thesis by (simp add: show_int_def)
  qed
qed

lemma takeWhile_rev_no_dash:
  "CHR ''-'' \<notin> set ds \<Longrightarrow> takeWhile (\<lambda>c. c \<noteq> CHR ''-'') (rev ds @ CHR ''-'' # zs) = rev ds"
  by (induction ds rule: rev_induct) auto

lemma dash_split:
  assumes "xs @ CHR ''-'' # ds = ys @ CHR ''-'' # es"
    and "CHR ''-'' \<notin> set ds" and "CHR ''-'' \<notin> set es"
  shows "xs = ys \<and> ds = es"
proof -
  have "rev ds = takeWhile (\<lambda>c. c \<noteq> CHR ''-'') (rev (xs @ CHR ''-'' # ds))"
    using assms(2) by (simp add: takeWhile_rev_no_dash)
  also have "\<dots> = takeWhile (\<lambda>c. c \<noteq> CHR ''-'') (rev (ys @ CHR ''-'' # es))"
    using assms(1) by simp
  also have "\<dots> = rev es"
    using assms(3) by (simp add: takeWhile_rev_no_dash)
  finally have "ds = es" by simp
  with assms(1) show ?thesis by simp
qed

lemma sint_inj32: "sint (a :: 32 word) = sint b \<Longrightarrow> a = b"
  by (simp add: signed_word_eqI)

lemma dbname_of_injective:
  "(p1 \<noteq> p2 \<longrightarrow> dbname_of n1 l1 i1 p1 \<noteq> dbname_of n2 l2 i2 p2) \<and>
   (i1 \<noteq> i2 \<longrightarrow> dbname_of n l i1 p1 \<noteq> dbname_of n l i2 p2) \<and>
   (i1 \<noteq> i2 \<and> 0 \<le> sint i1 \<and> 0 \<le> sint i2 \<longrightarrow>
      dbname_of n1 l1 i1 p1 \<noteq> dbname_of n2 l2 i2 p2)"
proof (intro conjI impI notI)
  assume ne: "p1 \<noteq> p2" and eq: "dbname_of n1 l1 i1 p1 = dbname_of n2 l2 i2 p2"
  from eq have "(''sgtmp-'' @ n1 @ ''-'' @ l1 @ ''-'' @ show_int (sint i1)) @ CHR ''-'' # show_nat p1
      = (''sgtmp-'' @ n2 @ ''-'' @ l2 @ ''-'' @ show_int (sint i2)) @ CHR ''-'' # show_nat p2"
    by (simp add: dbname_of_def)
  from dash_split [OF this show_nat_no_dash show_nat_no_dash]
  have "show_nat p1 = show_nat p2" by simp
  with ne show False by (auto dest: show_nat_inj)
next
  assume ne: "i1 \<noteq> i2" and eq: "dbname_of n l i1 p1 = dbname_of n l i2 p2"
  from eq have "show_int (sint i1) @ CHR ''-'' # show_nat p1
      = show_int (sint i2) @ CHR ''-'' # show_nat p2"
    by (simp add: dbname_of_def)
  from dash_split [OF this show_nat_no_dash show_nat_no_dash]
  have "show_int (sint i1) = show_int (sint i2)" by simp
  then have "sint i1 = sint i2" by (rule show_int_inj)
  with ne show False by (auto dest: sint_inj32)
next
  assume a: "i1 \<noteq> i2 \<and> 0 \<le> sint i1 \<and> 0 \<le> sint i2"
    and eq: "dbname_of n1 l1 i1 p1 = dbname_of n2 l2 i2 p2"
  from a have s1: "show_int (sint i1) = show_nat (nat (sint i1))"
    and s2: "show_int (sint i2) = show_nat (nat (sint i2))"
    by (simp_all add: show_int_def)
  from eq have "(''sgtmp-'' @ n1 @ ''-'' @ l1 @ ''-'' @ show_int (sint i1)) @ CHR ''-'' # show_nat p1
      = (''sgtmp-'' @ n2 @ ''-'' @ l2 @ ''-'' @ show_int (sint i2)) @ CHR ''-'' # show_nat p2"
    by (simp add: dbname_of_def)
  from dash_split [OF this show_nat_no_dash show_nat_no_dash]
  have "(''sgtmp-'' @ n1 @ ''-'' @ l1) @ CHR ''-'' # show_nat (nat (sint i1))
      = (''sgtmp-'' @ n2 @ ''-'' @ l2) @ CHR ''-'' # show_nat (nat (sint i2))"
    by (simp add: s1 s2)
  from dash_split [OF this show_nat_no_dash show_nat_no_dash]
  have "show_nat (nat (sint i1)) = show_nat (nat (sint i2))" by simp
  then have "nat (sint i1) = nat (sint i2)" by (rule show_nat_inj)
  with a have "sint i1 = sint i2" by linarith
  with a show False by (auto dest: sint_inj32)
qed


subsection \<open>Resource identities\<close>

lemma and_then_frame:
  assumes "and_then m f = (res, b', tr')"
    and "\<And>r b tr. m = (r, b, tr) \<Longrightarrow> P b"
    and "\<And>b tr r b2 tr2. P b \<Longrightarrow> f (b, tr) = (r, b2, tr2) \<Longrightarrow> P b2"
  shows "P b'"
proof (cases m)
  case (fields r b tr)
  then show ?thesis
    using assms by (cases r) (auto simp: and_then_def)
qed

lemma prepareDBs_frame:
  assumes "prepareDBs e cfg b ident mdb d c t tr = (res, b', tr')"
  shows "schema b' = schema b \<and> readyDBs b' = readyDBs b \<and> nextID b' = nextID b \<and> vlog b' = vlog b"
proof -
  let ?P = "\<lambda>x. schema x = schema b \<and> readyDBs x = readyDBs b \<and> nextID x = nextID b \<and> vlog x = vlog b"
  show ?thesis
    using assms unfolding prepareDBs_def
    apply (rule and_then_frame [where P = ?P])
     apply (erule and_then_frame [where P = ?P])
      apply (erule and_then_frame [where P = ?P])
       apply (auto simp: drop_step_def create_step_def truncate_step_def Let_def split: if_splits)
    done
qed

lemma pool_at_set_pool [simp]:
  "pool_at (set_pool r b st) r' = (if r' < length (pools st) then Some (if r' = r then b else pools st ! r') else None)"
  by (auto simp: pool_at_def set_pool_def)

lemma pool_at_trace_update [simp]: "pool_at (st\<lparr>trace := t\<rparr>) r = pool_at st r"
  by (simp add: pool_at_def)

lemma pool_at_running_update [simp]: "pool_at (st\<lparr>running := m\<rparr>) r = pool_at st r"
  by (simp add: pool_at_def)

lemma pool_at_goroutines_update [simp]: "pool_at (st\<lparr>goroutines := gs\<rparr>) r = pool_at st r"
  by (simp add: pool_at_def)

lemma trace_set_pool [simp]: "trace (set_pool r b st) = trace st"
  by (simp add: set_pool_def)






lemmas system_eval = prepareNewDB_def prepareNewDB_rest_def pool_at_def set_pool_def atomic_AddInt32_def Let_def
  dbname_of_def show_int_def show_nat.simps digit_char_def chan_send_def make_chan_def
  zero_pool_def env_ok_def cfg_default_def pool_pkgA_def st_pkgA_def




subsection \<open>The names a run creates\<close>

lemma created_names_append:
  "created_names (tr @ tr') = created_names tr @ created_names tr'"
  by (induction tr rule: created_names.induct) simp_all

lemma created_names_vlogf [simp]:
  "created_names (vlogf cfg b msg tr) = created_names tr"
  by (simp add: vlogf_def vlog_Printf_def created_names_append split: logger.splits)

lemma drop_step_created_names:
  "drop_step e cfg ident mdb f (b, tr) = (res, b', tr') \<Longrightarrow> created_names tr' = created_names tr"
  by (auto simp: drop_step_def Let_def created_names_append split: if_splits)

lemma create_step_created_names:
  "create_step e cfg ident mdb f (b, tr) = (res, b', tr') \<Longrightarrow> created_names tr' = created_names tr"
  by (auto simp: create_step_def Let_def created_names_append split: if_splits)

lemma truncate_step_created_names:
  "truncate_step e cfg ident mdb f (b, tr) = (res, b', tr') \<Longrightarrow> created_names tr' = created_names tr"
  by (auto simp: truncate_step_def Let_def created_names_append split: if_splits)

lemma and_then_created_names:
  assumes "and_then m f = (res, b', tr')"
    and "created_names (snd (snd m)) = ns"
    and "\<And>b tr res b' tr'. f (b, tr) = (res, b', tr') \<Longrightarrow> created_names tr' = created_names tr"
  shows "created_names tr' = ns"
proof (cases m)
  case (fields r0 b0 tr0)
  show ?thesis
  proof (cases r0)
    case (Ok u)
    with fields assms(1) have "f (b0, tr0) = (res, b', tr')" by (simp add: and_then_def)
    from assms(3) [OF this] fields assms(2) show ?thesis by simp
  next
    case (Fatal x)
    with fields assms(1,2) show ?thesis by (simp add: and_then_def)
  next
    case (Panic p)
    with fields assms(1,2) show ?thesis by (simp add: and_then_def)
  qed
qed

lemma prepareDBs_created_names:
  assumes "prepareDBs e cfg b ident mdb dropF createF truncateF tr = (res, b', tr')"
  shows "created_names tr' = created_names tr"
proof -
  let ?m1 = "drop_step e cfg ident mdb dropF (b, tr)"
  let ?m2 = "and_then ?m1 (create_step e cfg ident mdb createF)"
  let ?m3 = "and_then ?m2 (truncate_step e cfg ident mdb truncateF)"
  have 1: "created_names (snd (snd ?m1)) = created_names tr"
    using drop_step_created_names [of e cfg ident mdb dropF b tr "fst ?m1" "fst (snd ?m1)" "snd (snd ?m1)"]
    by simp
  have 2: "created_names (snd (snd ?m2)) = created_names tr"
    using and_then_created_names [of ?m1 "create_step e cfg ident mdb createF"
        "fst ?m2" "fst (snd ?m2)" "snd (snd ?m2)", OF _ 1]
    by (simp add: create_step_created_names)
  have 3: "created_names (snd (snd ?m3)) = created_names tr"
    using and_then_created_names [of ?m2 "truncate_step e cfg ident mdb truncateF"
        "fst ?m3" "fst (snd ?m3)" "snd (snd ?m3)", OF _ 2]
    by (simp add: truncate_step_created_names)
  from assms have "and_then ?m3 (\<lambda>s. case s of (b', tr') \<Rightarrow> (Ok (), b', vlogf cfg b' (Ready ident) tr'))
      = (res, b', tr')"
    by (simp add: prepareDBs_def)
  from and_then_created_names [OF this 3] show ?thesis by auto
qed

lemma prepareNewDB_rest_created_names:
  assumes "pool_at st r = Some b"
  shows "created_names (trace (snd (prepareNewDB_rest e cfg r poolName ident st)))
     = created_names (trace st) @ [dbname_of poolName (label cfg) ident (pid cfg)]"
proof -
  let ?n = "dbname_of poolName (label cfg) ident (pid cfg)"
  let ?tr1 = "trace st @ [EvCreateDB ?n]"
  show ?thesis
  proof (cases "schema b")
    case None
    with assms show ?thesis
      by (simp add: prepareNewDB_rest_def Let_def created_names_append)
  next
    case (Some a)
    show ?thesis
    proof (cases "dbutil2_Open e ?tr1 (''dbname='' @ ?n) (schema_at e a)")
      case None
      with Some assms show ?thesis
        by (simp add: prepareNewDB_rest_def Let_def created_names_append)
    next
      case (Some dbh)
      let ?tr2 = "?tr1 @ [EvOpen (''dbname='' @ ?n)]"
      obtain res b2 tr3 where p: "prepareDBs e cfg b (sint ident) dbh (dropSchema cfg)
          (createSchema cfg) (truncate_flag cfg) ?tr2 = (res, b2, tr3)"
        by (cases "prepareDBs e cfg b (sint ident) dbh (dropSchema cfg)
          (createSchema cfg) (truncate_flag cfg) ?tr2") auto
      from prepareDBs_created_names [OF p]
      have "created_names tr3 = created_names (trace st) @ [?n]"
        by (simp add: created_names_append)
      with p Some \<open>schema b = Some a\<close> assms show ?thesis
        by (cases res) (simp_all add: prepareNewDB_rest_def Let_def)
    qed
  qed
qed

lemma run_names_single:
  assumes "pool_at st r = Some b"
  shows "run_names e cfg r poolName ident st = [dbname_of poolName (label cfg) ident (pid cfg)]"
  by (simp add: run_names_def prepareNewDB_rest_created_names [OF assms])

text \<open>
  Claim C8, as amended. A provisioning run on a pool creates exactly one
  resource, and its name is \<open>dbname_of\<close> of the pool name, the label, the
  identity of the run and the process identifier, whatever the backend answers
  and whatever else the state holds; \<open>prepareNewDB\<close> is such a run with the
  identity that it draws from the counter of the pool. Two runs in processes
  with different process identifiers create different names. Two runs with
  different identities create different names when they have the same pool name
  and label, and also when neither identity is negative. (Between a negative
  identity and another pool name the names can coincide, as shown below.)
\<close>

theorem run_names_distinct:
  assumes "pool_at st1 r1 = Some b1" and "pool_at st2 r2 = Some b2"
  shows "run_names e1 cfg1 r1 n1 i1 st1 = [dbname_of n1 (label cfg1) i1 (pid cfg1)] \<and>
    prepareNewDB e1 cfg1 r1 n1 st1
      = prepareNewDB_rest e1 cfg1 r1 n1 (atomic_AddInt32 (nextID b1) 1)
          (set_pool r1 (b1\<lparr>nextID := atomic_AddInt32 (nextID b1) 1\<rparr>) st1) \<and>
    (pid cfg1 \<noteq> pid cfg2 \<longrightarrow>
       run_names e1 cfg1 r1 n1 i1 st1 \<noteq> run_names e2 cfg2 r2 n2 i2 st2) \<and>
    (i1 \<noteq> i2 \<and> n1 = n2 \<and> label cfg1 = label cfg2 \<longrightarrow>
       run_names e1 cfg1 r1 n1 i1 st1 \<noteq> run_names e2 cfg2 r2 n2 i2 st2) \<and>
    (i1 \<noteq> i2 \<and> 0 \<le> sint i1 \<and> 0 \<le> sint i2 \<longrightarrow>
       run_names e1 cfg1 r1 n1 i1 st1 \<noteq> run_names e2 cfg2 r2 n2 i2 st2)"
proof -
  note inj = dbname_of_injective [where ?p1.0 = "pid cfg1" and ?p2.0 = "pid cfg2" and ?n1.0 = n1
      and ?l1.0 = "label cfg1" and ?i1.0 = i1 and ?n2.0 = n2 and ?l2.0 = "label cfg2" and ?i2.0 = i2
      and n = n1 and l = "label cfg1"]
  have a: "run_names e1 cfg1 r1 n1 i1 st1 = [dbname_of n1 (label cfg1) i1 (pid cfg1)]"
    by (rule run_names_single [OF assms(1)])
  have b: "run_names e2 cfg2 r2 n2 i2 st2 = [dbname_of n2 (label cfg2) i2 (pid cfg2)]"
    by (rule run_names_single [OF assms(2)])
  have c: "prepareNewDB e1 cfg1 r1 n1 st1
      = prepareNewDB_rest e1 cfg1 r1 n1 (atomic_AddInt32 (nextID b1) 1)
          (set_pool r1 (b1\<lparr>nextID := atomic_AddInt32 (nextID b1) 1\<rparr>) st1)"
    using assms(1) by (simp add: prepareNewDB_def Let_def)
  from inj a b c show ?thesis by auto
qed

theorem run_names_distinct_witness:
  "pool_at st_pkgA 0 = Some pool_pkgA \<and>
   run_names env_ok cfg_default 0 ''pkgA'' 1 st_pkgA = [''sgtmp-pkgA-testdb-1-4242''] \<and>
   run_names env_ok cfg_default 0 ''pkgA'' 2 st_pkgA = [''sgtmp-pkgA-testdb-2-4242''] \<and>
   run_names env_ok (cfg_default\<lparr>pid := 4243\<rparr>) 0 ''pkgA'' 1 st_pkgA = [''sgtmp-pkgA-testdb-1-4243''] \<and>
   created_names (trace (snd (prepareNewDB env_ok cfg_default 0 ''pkgA'' st_pkgA)))
     = [''sgtmp-pkgA-testdb-1-4242''] \<and>
   run_names env_ok cfg_default 0 ''pkgA'' 1 st_pkgA \<noteq> run_names env_ok cfg_default 0 ''pkgA'' 2 st_pkgA \<and>
   run_names env_ok cfg_default 0 ''pkgA'' 1 st_pkgA
     \<noteq> run_names env_ok (cfg_default\<lparr>pid := 4243\<rparr>) 0 ''pkgA'' 1 st_pkgA"
proof -
  have p: "pool_at st_pkgA 0 = Some pool_pkgA"
    by (simp add: st_pkgA_def pool_at_def)
  have ev: "run_names env_ok cfg_default 0 ''pkgA'' 1 st_pkgA = [''sgtmp-pkgA-testdb-1-4242'']"
    "run_names env_ok cfg_default 0 ''pkgA'' 2 st_pkgA = [''sgtmp-pkgA-testdb-2-4242'']"
    "run_names env_ok (cfg_default\<lparr>pid := 4243\<rparr>) 0 ''pkgA'' 1 st_pkgA = [''sgtmp-pkgA-testdb-1-4243'']"
    "created_names (trace (snd (prepareNewDB env_ok cfg_default 0 ''pkgA'' st_pkgA)))
     = [''sgtmp-pkgA-testdb-1-4242'']"
    by (simp_all add: run_names_def system_eval prepare_eval)
  have i: "(1 :: 32 word) \<noteq> 2 \<and> (0::int) \<le> sint (1 :: 32 word) \<and> (0::int) \<le> sint (2 :: 32 word)"
    by simp
  have q: "pid cfg_default \<noteq> pid (cfg_default\<lparr>pid := 4243\<rparr>)"
    by (simp add: cfg_default_def)
  from run_names_distinct [OF p p, where ?i1.0 = 1 and ?i2.0 = 2 and ?n1.0 = "''pkgA''"
      and ?n2.0 = "''pkgA''" and ?cfg1.0 = cfg_default and ?cfg2.0 = cfg_default
      and ?e1.0 = env_ok and ?e2.0 = env_ok] i
  have d1: "run_names env_ok cfg_default 0 ''pkgA'' 1 st_pkgA
      \<noteq> run_names env_ok cfg_default 0 ''pkgA'' 2 st_pkgA"
    by blast
  from run_names_distinct [OF p p, where ?i1.0 = 1 and ?i2.0 = 1 and ?n1.0 = "''pkgA''"
      and ?n2.0 = "''pkgA''" and ?cfg1.0 = cfg_default and ?cfg2.0 = "cfg_default\<lparr>pid := 4243\<rparr>"
      and ?e1.0 = env_ok and ?e2.0 = env_ok] q
  have d2: "run_names env_ok cfg_default 0 ''pkgA'' 1 st_pkgA
      \<noteq> run_names env_ok (cfg_default\<lparr>pid := 4243\<rparr>) 0 ''pkgA'' 1 st_pkgA"
    by blast
  from p ev d1 d2 show ?thesis by blast
qed

text \<open>
  Two pools named \<open>a\<close> and \<open>a-\<close> in a process whose label is \<open>-\<close>: the first
  has come to the identity \<open>-5\<close> after its counter has wrapped around, the second
  to the identity \<open>5\<close>. The two runs have different identities and create the same
  name.
\<close>

theorem run_names_distinct_counterexample:
  "pool_at st_dash 0 = Some (pool_pkgA\<lparr>nextID := 4294967290\<rparr>) \<and>
   pool_at st_dash 1 = Some (pool_pkgA\<lparr>nextID := 4\<rparr>) \<and>
   atomic_AddInt32 4294967290 1 \<noteq> atomic_AddInt32 4 1 \<and>
   sint (atomic_AddInt32 4294967290 1) = - 5 \<and>
   sint (atomic_AddInt32 4 1) = 5 \<and>
   created_names (trace (snd (prepareNewDB env_ok cfg_dash 0 ''a'' st_dash)))
     = [''sgtmp-a----5-4242''] \<and>
   created_names (trace (snd (prepareNewDB env_ok cfg_dash 1 ''a-'' st_dash)))
     = [''sgtmp-a----5-4242''] \<and>
   run_names env_ok cfg_dash 0 ''a'' 4294967291 st_dash
     = run_names env_ok cfg_dash 1 ''a-'' 5 st_dash"
  by (simp add: run_names_def st_dash_def cfg_dash_def system_eval prepare_eval)

subsection \<open>Errors of a provisioning run\<close>

lemma steps_createdb_fails [simp]:
  "drop_step (e\<lparr>createdb_fails := f\<rparr>) = drop_step e"
  "create_step (e\<lparr>createdb_fails := f\<rparr>) = create_step e"
  "truncate_step (e\<lparr>createdb_fails := f\<rparr>) = truncate_step e"
  by (intro ext; auto simp: drop_step_def create_step_def truncate_step_def Let_def split: prod.splits)+

lemma prepareDBs_createdb_fails [simp]:
  "prepareDBs (e\<lparr>createdb_fails := f\<rparr>) = prepareDBs e"
  by (intro ext) (simp add: prepareDBs_def)

lemma prepareNewDB_rest_createdb_fails:
  "prepareNewDB_rest (e\<lparr>createdb_fails := f\<rparr>) cfg r poolName ident st
     = prepareNewDB_rest e cfg r poolName ident st"
  by (simp add: prepareNewDB_rest_def Let_def cong: option.case_cong)

lemma prepareNewDB_createdb_fails:
  "prepareNewDB (e\<lparr>createdb_fails := f\<rparr>) cfg r poolName st = prepareNewDB e cfg r poolName st"
  by (simp add: prepareNewDB_def Let_def prepareNewDB_rest_createdb_fails cong: option.case_cong)

lemma prepareNewDB_open_fails:
  assumes "pool_at st r = Some b" and "schema b = Some a"
    and "dbutil2_Open e (trace st @ [EvCreateDB (dbname_of poolName (label cfg) (nextID b + 1) (pid cfg))])
           (''dbname='' @ dbname_of poolName (label cfg) (nextID b + 1) (pid cfg)) (schema_at e a) = None"
  shows "prepareNewDB e cfg r poolName st =
     (Fatal OpenFailed,
      (set_pool r (b\<lparr>nextID := nextID b + 1\<rparr>) st)
        \<lparr>trace := trace st @ [EvCreateDB (dbname_of poolName (label cfg) (nextID b + 1) (pid cfg)),
                              EvOpen (''dbname='' @ dbname_of poolName (label cfg) (nextID b + 1) (pid cfg))]\<rparr>)"
proof -
  from assms(1) have "r < length (pools st)"
    by (auto simp: pool_at_def split: if_splits)
  with assms show ?thesis
    by (simp add: prepareNewDB_def prepareNewDB_rest_def Let_def atomic_AddInt32_def)
qed

text \<open>
  Claim C5. In a provisioning run the result of \<open>createdb\<close> has no influence:
  replacing the backend's answer to \<open>createdb\<close> by any other leaves the outcome
  and the final state of \<open>prepareNewDB\<close> unchanged, so a failure of \<open>createdb\<close>
  is swallowed and the run goes on to \<open>dbutil2.Open\<close>. If the pool has a schema
  and \<open>dbutil2.Open\<close> fails, the run ends the process with \<open>OpenFailed\<close>;
  \<open>dbutil2.Open\<close> has then been called exactly once (no retry) and nothing has
  been sent to \<open>readyDBs\<close>.
\<close>

theorem prepareNewDB_createdb_swallowed_open_fatal:
  "prepareNewDB (e\<lparr>createdb_fails := f\<rparr>) cfg r poolName st = prepareNewDB e cfg r poolName st \<and>
   (pool_at st r = Some b \<and> schema b = Some a \<and>
    dbutil2_Open e (trace st @ [EvCreateDB (dbname_of poolName (label cfg) (nextID b + 1) (pid cfg))])
      (''dbname='' @ dbname_of poolName (label cfg) (nextID b + 1) (pid cfg)) (schema_at e a) = None
    \<longrightarrow> fst (prepareNewDB e cfg r poolName st) = Fatal OpenFailed \<and>
        opens (trace (snd (prepareNewDB e cfg r poolName st))) = opens (trace st) + 1 \<and>
        readyDBs (pools (snd (prepareNewDB e cfg r poolName st)) ! r) = readyDBs b)"
proof (intro conjI impI)
  show "prepareNewDB (e\<lparr>createdb_fails := f\<rparr>) cfg r poolName st = prepareNewDB e cfg r poolName st"
    by (rule prepareNewDB_createdb_fails)
next
  assume a: "pool_at st r = Some b \<and> schema b = Some a \<and>
    dbutil2_Open e (trace st @ [EvCreateDB (dbname_of poolName (label cfg) (nextID b + 1) (pid cfg))])
      (''dbname='' @ dbname_of poolName (label cfg) (nextID b + 1) (pid cfg)) (schema_at e a) = None"
  then have r: "r < length (pools st)"
    by (auto simp: pool_at_def split: if_splits)
  have eq: "prepareNewDB e cfg r poolName st =
     (Fatal OpenFailed,
      (set_pool r (b\<lparr>nextID := nextID b + 1\<rparr>) st)
        \<lparr>trace := trace st @ [EvCreateDB (dbname_of poolName (label cfg) (nextID b + 1) (pid cfg)),
                              EvOpen (''dbname='' @ dbname_of poolName (label cfg) (nextID b + 1) (pid cfg))]\<rparr>)"
    by (rule prepareNewDB_open_fails [OF conjunct1 [OF a] conjunct1 [OF conjunct2 [OF a]]
        conjunct2 [OF conjunct2 [OF a]]])
  show "fst (prepareNewDB e cfg r poolName st) = Fatal OpenFailed"
    by (simp add: eq)
  show "opens (trace (snd (prepareNewDB e cfg r poolName st))) = opens (trace st) + 1"
    by (simp add: eq opens_def)
  show "readyDBs (pools (snd (prepareNewDB e cfg r poolName st)) ! r) = readyDBs b"
    using r by (simp add: eq set_pool_def)
qed

theorem prepareNewDB_createdb_swallowed_open_fatal_witness:
  "createdb_fails env_no_createdb (trace st_pkgA) ''sgtmp-pkgA-testdb-1-4242'' \<and>
   prepareNewDB env_no_createdb cfg_default 0 ''pkgA'' st_pkgA
     = prepareNewDB env_ok cfg_default 0 ''pkgA'' st_pkgA \<and>
   fst (prepareNewDB env_no_createdb cfg_default 0 ''pkgA'' st_pkgA) = Ok () \<and>
   buf (readyDBs (pools (snd (prepareNewDB env_no_createdb cfg_default 0 ''pkgA'' st_pkgA)) ! 0))
     = [''dbname=sgtmp-pkgA-testdb-1-4242''] \<and>
   pool_at st_pkgA 0 = Some pool_pkgA \<and> schema pool_pkgA = Some 0 \<and>
   dbutil2_Open env_no_open
     (trace st_pkgA @ [EvCreateDB (dbname_of ''pkgA'' (label cfg_default) (nextID pool_pkgA + 1) (pid cfg_default))])
     (''dbname='' @ dbname_of ''pkgA'' (label cfg_default) (nextID pool_pkgA + 1) (pid cfg_default))
     (schema_at env_no_open 0) = None \<and>
   fst (prepareNewDB env_no_open cfg_default 0 ''pkgA'' st_pkgA) = Fatal OpenFailed \<and>
   opens (trace (snd (prepareNewDB env_no_open cfg_default 0 ''pkgA'' st_pkgA))) = opens (trace st_pkgA) + 1 \<and>
   readyDBs (pools (snd (prepareNewDB env_no_open cfg_default 0 ''pkgA'' st_pkgA)) ! 0) = readyDBs pool_pkgA"
proof -
  have a: "createdb_fails env_no_createdb (trace st_pkgA) ''sgtmp-pkgA-testdb-1-4242''"
    by (simp add: env_no_createdb_def)
  have b: "fst (prepareNewDB env_ok cfg_default 0 ''pkgA'' st_pkgA) = Ok ()"
    "buf (readyDBs (pools (snd (prepareNewDB env_ok cfg_default 0 ''pkgA'' st_pkgA)) ! 0))
       = [''dbname=sgtmp-pkgA-testdb-1-4242'']"
    by (simp_all add: system_eval prepare_eval)
  have c: "pool_at st_pkgA 0 = Some pool_pkgA \<and> schema pool_pkgA = Some 0 \<and>
     dbutil2_Open env_no_open
       (trace st_pkgA @ [EvCreateDB (dbname_of ''pkgA'' (label cfg_default) (nextID pool_pkgA + 1) (pid cfg_default))])
       (''dbname='' @ dbname_of ''pkgA'' (label cfg_default) (nextID pool_pkgA + 1) (pid cfg_default))
       (schema_at env_no_open 0) = None"
    by (simp add: env_no_open_def st_pkgA_def pool_at_def pool_pkgA_def zero_pool_def)
  from prepareNewDB_createdb_swallowed_open_fatal
      [where e = env_ok and f = "\<lambda>tr n. True" and cfg = cfg_default and r = 0
        and poolName = "''pkgA''" and st = st_pkgA]
  have d: "prepareNewDB env_no_createdb cfg_default 0 ''pkgA'' st_pkgA
     = prepareNewDB env_ok cfg_default 0 ''pkgA'' st_pkgA"
    by (simp add: env_no_createdb_def)
  from prepareNewDB_createdb_swallowed_open_fatal
      [where e = env_no_open and cfg = cfg_default and r = 0 and poolName = "''pkgA''"
        and st = st_pkgA and b = pool_pkgA and a = 0] c
  have e: "fst (prepareNewDB env_no_open cfg_default 0 ''pkgA'' st_pkgA) = Fatal OpenFailed \<and>
     opens (trace (snd (prepareNewDB env_no_open cfg_default 0 ''pkgA'' st_pkgA))) = opens (trace st_pkgA) + 1 \<and>
     readyDBs (pools (snd (prepareNewDB env_no_open cfg_default 0 ''pkgA'' st_pkgA)) ! 0) = readyDBs pool_pkgA"
    by blast
  from a b c d e show ?thesis by simp
qed

subsection \<open>What runs and waits leave unchanged\<close>

lemma frame_refl [simp]: "frame st st"
  by (simp add: frame_def)

lemma frame_trans: "frame st st' \<Longrightarrow> frame st' st'' \<Longrightarrow> frame st st''"
  by (simp add: frame_def)

lemma frame_lengths:
  "frame st st' \<Longrightarrow> length (pools st') = length (pools st) \<and> length (goroutines st') = length (goroutines st)"
  unfolding frame_def by (metis length_map)

lemma map_schema_update:
  "r < length ps \<Longrightarrow> schema b = schema (ps ! r) \<Longrightarrow> map schema (ps[r := b]) = map schema ps"
  by (simp add: map_update list_update_same_conv)

lemma prepareNewDB_rest_frame:
  assumes "prepareNewDB_rest e cfg r poolName ident st = (res, st')"
  shows "frame st st'"
proof (cases "pool_at st r")
  case None
  with assms show ?thesis by (simp add: prepareNewDB_rest_def)
next
  case (Some b)
  then have r: "r < length (pools st)" and b: "b = pools st ! r"
    by (auto simp: pool_at_def split: if_splits)
  have upd: "\<And>b' t. schema b' = schema b \<Longrightarrow> frame st ((set_pool r b' st)\<lparr>trace := t\<rparr>)"
    using r b by (simp add: frame_def set_pool_def map_schema_update)
  have tr: "\<And>t. frame st (st\<lparr>trace := t\<rparr>)"
    by (simp add: frame_def)
  show ?thesis
    using assms Some
    by (auto simp: prepareNewDB_rest_def Let_def split: option.splits prod.splits result.splits
        dest!: prepareDBs_frame intro!: upd tr)
qed

lemma frame_nextID:
  assumes "pool_at st r = Some b"
  shows "frame st (set_pool r (b\<lparr>nextID := v\<rparr>) st)"
proof -
  from assms have "r < length (pools st)" "b = pools st ! r"
    by (auto simp: pool_at_def split: if_splits)
  then show ?thesis
    by (simp add: frame_def set_pool_def map_schema_update)
qed

lemma prepareNewDB_frame:
  assumes "prepareNewDB e cfg r poolName st = (res, st')"
  shows "frame st st'"
proof (cases "pool_at st r")
  case None
  with assms show ?thesis by (simp add: prepareNewDB_def)
next
  case (Some b)
  with assms have "prepareNewDB_rest e cfg r poolName (atomic_AddInt32 (nextID b) 1)
      (set_pool r (b\<lparr>nextID := atomic_AddInt32 (nextID b) 1\<rparr>) st) = (res, st')"
    by (simp add: prepareNewDB_def Let_def)
  from frame_trans [OF frame_nextID [OF Some] prepareNewDB_rest_frame [OF this]]
  show ?thesis .
qed

lemma run_goroutine_frame:
  assumes "run_goroutine e cfg i st = (res, st')"
  shows "frame st st'"
proof (cases "i < length (goroutines st)")
  case False
  with assms show ?thesis by (simp add: run_goroutine_def)
next
  case i: True
  let ?g = "goroutines st ! i"
  show ?thesis
  proof (cases "g_started ?g")
    case False
    show ?thesis
    proof (cases "pool_at st (g_pool ?g)")
      case None
      with assms i False show ?thesis by (simp add: run_goroutine_def Let_def)
    next
      case (Some b)
      let ?st1 = "set_pool (g_pool ?g) (b\<lparr>nextID := atomic_AddInt32 (nextID b) 1\<rparr>) st"
      from assms i False Some
      have st': "st' = ?st1\<lparr>goroutines := (goroutines st)[i := ?g\<lparr>g_started := True\<rparr>],
          running := (running st)(i \<mapsto> atomic_AddInt32 (nextID b) 1)\<rparr>"
        by (auto simp: run_goroutine_def Let_def)
      have "frame ?st1 st'"
        using i by (simp add: st' frame_def set_pool_def map_update list_update_same_conv)
      with frame_nextID [OF Some] show ?thesis by (rule frame_trans)
    qed
  next
    case True
    show ?thesis
    proof (cases "running st i")
      case None
      with assms i True show ?thesis by (simp add: run_goroutine_def Let_def)
    next
      case (Some ident)
      let ?st1 = "st\<lparr>running := (running st)(i := None)\<rparr>"
      from assms i True Some
      have "prepareNewDB_rest e cfg (g_pool ?g) (g_poolName ?g) ident ?st1 = (res, st')"
        by (simp add: run_goroutine_def Let_def)
      from prepareNewDB_rest_frame [OF this] have "frame ?st1 st'" .
      moreover have "frame st ?st1" by (simp add: frame_def)
      ultimately show ?thesis by (rule frame_trans [rotated])
    qed
  qed
qed

lemma run_goroutines_frame:
  "run_goroutines e cfg sched st = (res, st') \<Longrightarrow> frame st st'"
proof (induction sched arbitrary: st)
  case Nil
  then show ?case by simp
next
  case (Cons i rest)
  obtain r1 st1 where run: "run_goroutine e cfg i st = (r1, st1)"
    by (cases "run_goroutine e cfg i st")
  note f1 = run_goroutine_frame [OF run]
  show ?case
  proof (cases r1)
    case (Ok u)
    with Cons.prems run have "run_goroutines e cfg rest st1 = (res, st')" by simp
    from frame_trans [OF f1 Cons.IH [OF this]] show ?thesis .
  next
    case (Fatal x)
    with Cons.prems run f1 show ?thesis by auto
  next
    case (Panic p)
    with Cons.prems run f1 show ?thesis by auto
  qed
qed

subsection \<open>The outcomes of a provisioning run and of a wait\<close>

lemma and_then_results:
  assumes "and_then m f = (res, s')"
    and "fst m = Ok () \<or> P (fst m)"
    and "\<And>s r s2. f s = (r, s2) \<Longrightarrow> r = Ok () \<or> P r"
  shows "res = Ok () \<or> P res"
proof (cases m)
  case (Pair r s)
  then show ?thesis
    using assms by (cases r) (auto simp: and_then_def)
qed

lemma prepareDBs_results:
  assumes "prepareDBs e cfg b ident mdb d c t tr = (res, b', tr')"
  shows "res = Ok () \<or> res = Fatal SchemaDropFailed \<or> res = Fatal SchemaCreateFailed \<or>
     res = Fatal TruncateFailed"
proof -
  let ?P = "\<lambda>r. r = Fatal SchemaDropFailed \<or> r = Fatal SchemaCreateFailed \<or> r = Fatal TruncateFailed"
  have "res = Ok () \<or> ?P res"
    using assms unfolding prepareDBs_def
    apply (rule and_then_results [where P = ?P])
     apply (rule and_then_results [where P = ?P, OF surjective_pairing])
      apply (rule and_then_results [where P = ?P, OF surjective_pairing])
       apply (auto simp: drop_step_def create_step_def truncate_step_def Let_def split: if_splits)
    done
  then show ?thesis by blast
qed

lemma prepareNewDB_rest_results:
  assumes "prepareNewDB_rest e cfg r poolName ident st = (res, st')"
  shows "res = Ok () \<or> background_failure res"
  using assms
  by (auto simp: prepareNewDB_rest_def Let_def background_failure_def
      split: option.splits prod.splits result.splits dest!: prepareDBs_results)

lemma prepareNewDB_results:
  assumes "prepareNewDB e cfg r poolName st = (res, st')"
  shows "res = Ok () \<or> background_failure res"
  using assms
  by (auto simp: prepareNewDB_def Let_def background_failure_def
      split: option.splits dest: prepareNewDB_rest_results)

lemma run_goroutine_results:
  assumes "run_goroutine e cfg i st = (res, st')"
  shows "res = Ok () \<or> background_failure res"
  using assms
  by (auto simp: run_goroutine_def Let_def background_failure_def
      split: if_splits option.splits dest: prepareNewDB_rest_results)

lemma frame_recv:
  assumes "pool_at st r = Some b"
  shows "frame st ((set_pool r (b\<lparr>readyDBs := c\<rparr>) st)\<lparr>trace := t\<rparr>)"
proof -
  from assms have "r < length (pools st)" "b = pools st ! r"
    by (auto simp: pool_at_def split: if_splits)
  then show ?thesis
    by (simp add: frame_def set_pool_def map_schema_update)
qed

lemma select_readyDBs_frame:
  "select_readyDBs e cfg r sched st = (res, st') \<Longrightarrow> frame st st'"
proof (induction sched arbitrary: st)
  case Nil
  then show ?case
    by (auto simp: select_readyDBs.simps split: option.splits prod.splits intro: frame_recv)
next
  case (Cons i rest)
  show ?case
  proof (cases "pool_at st r")
    case None
    with Cons.prems show ?thesis by (simp add: select_readyDBs.simps)
  next
    case (Some b)
    show ?thesis
    proof (cases "chan_recv (readyDBs b)")
      case (Some hc)
      with Cons.prems \<open>pool_at st r = Some b\<close> show ?thesis
        by (auto simp: select_readyDBs.simps split: prod.splits intro: frame_recv)
    next
      case None
      obtain r1 st1 where run: "run_goroutine e cfg i st = (r1, st1)"
        by (cases "run_goroutine e cfg i st")
      note f1 = run_goroutine_frame [OF run]
      show ?thesis
      proof (cases r1)
        case (Ok u)
        with Cons.prems run None \<open>pool_at st r = Some b\<close>
        have "select_readyDBs e cfg r rest st1 = (res, st')"
          by (simp add: select_readyDBs.simps [of e cfg r "i # rest"])
        from frame_trans [OF f1 Cons.IH [OF this]] show ?thesis .
      next
        case (Fatal x)
        with Cons.prems run None \<open>pool_at st r = Some b\<close> f1 show ?thesis
          by (auto simp: select_readyDBs.simps [of e cfg r "i # rest"])
      next
        case (Panic p)
        with Cons.prems run None \<open>pool_at st r = Some b\<close> f1 show ?thesis
          by (auto simp: select_readyDBs.simps [of e cfg r "i # rest"])
      qed
    qed
  qed
qed

lemma select_readyDBs_outcome:
  "select_readyDBs e cfg r sched st = (res, st') \<Longrightarrow>
     (\<exists>h k st_k. res = Ok h \<and> k \<le> length sched \<and>
        run_goroutines e cfg (take k sched) st = (Ok (), st_k) \<and> delivers st_k r h) \<or>
     res = Fatal (ProvisionTimeout timeout) \<or> background_failure res"
proof (induction sched arbitrary: st)
  case Nil
  then show ?case
    by (auto simp: select_readyDBs.simps delivers_def background_failure_def
        split: option.splits prod.splits)
next
  case (Cons i rest)
  show ?case
  proof (cases "pool_at st r")
    case None
    with Cons.prems show ?thesis
      by (simp add: select_readyDBs.simps background_failure_def)
  next
    case b: (Some b)
    show ?thesis
    proof (cases "chan_recv (readyDBs b)")
      case (Some hc)
      obtain h c where hc: "hc = (h, c)" by (cases hc)
      with Some b Cons.prems have "res = Ok h"
        by (auto simp: select_readyDBs.simps)
      moreover have "run_goroutines e cfg (take 0 (i # rest)) st = (Ok (), st)" by simp
      moreover have "delivers st r h"
        using b Some hc by (simp add: delivers_def)
      ultimately show ?thesis by blast
    next
      case None
      obtain r1 st1 where run: "run_goroutine e cfg i st = (r1, st1)"
        by (cases "run_goroutine e cfg i st")
      show ?thesis
      proof (cases r1)
        case (Ok u)
        with Cons.prems run None b
        have sel: "select_readyDBs e cfg r rest st1 = (res, st')"
          by (simp add: select_readyDBs.simps [of e cfg r "i # rest"])
        from Cons.IH [OF sel] show ?thesis
        proof (elim disjE exE conjE)
          fix h k st_k
          assume "res = Ok h" "k \<le> length rest"
            "run_goroutines e cfg (take k rest) st1 = (Ok (), st_k)" "delivers st_k r h"
          then have "res = Ok h \<and> Suc k \<le> length (i # rest) \<and>
             run_goroutines e cfg (take (Suc k) (i # rest)) st = (Ok (), st_k) \<and> delivers st_k r h"
            using run Ok by simp
          then show ?thesis by blast
        qed simp_all
      next
        case (Fatal x)
        with Cons.prems run None b have "res = Fatal x"
          by (auto simp: select_readyDBs.simps [of e cfg r "i # rest"])
        with run_goroutine_results [OF run] Fatal show ?thesis
          by (simp add: background_failure_def)
      next
        case (Panic p)
        with Cons.prems run None b have "res = Panic p"
          by (auto simp: select_readyDBs.simps [of e cfg r "i # rest"])
        with run_goroutine_results [OF run] Panic show ?thesis
          by (simp add: background_failure_def)
      qed
    qed
  qed
qed

subsection \<open>Pool creation\<close>

lemma start_loop_eq:
  "start_loop i n r poolName st =
     st\<lparr>goroutines := goroutines st @
        replicate (nat (n - i)) \<lparr>g_pool = r, g_poolName = poolName, g_started = False\<rparr>\<rparr>"
proof (induction i n r poolName st rule: start_loop.induct)
  case (1 i n r poolName st)
  show ?case
  proof (cases "i < n")
    case True
    then have "nat (n - i) = Suc (nat (n - (i + 1)))" by simp
    with True 1 show ?thesis
      by (subst start_loop.simps) (simp add: go_prepareNewDB_def replicate_append_same)
  next
    case False
    then show ?thesis
      by (subst start_loop.simps) simp
  qed
qed

lemma start_Ok:
  assumes "start cfg r poolName sch st = (Ok u, st')"
  shows "label cfg \<noteq> [] \<and> 0 \<le> initialPoolSize cfg \<and> initialPoolSize cfg \<le> maxChanCap cfg \<and>
     (\<exists>b. pool_at st r = Some b \<and>
        st' = (set_pool r (b\<lparr>schema := sch,
                 vlog := (if verbose cfg then StderrLogger else DiscardLogger),
                 created := Map.empty, dropped := Map.empty,
                 readyDBs := make_chan (nat (initialPoolSize cfg))\<rparr>) st)
               \<lparr>CreateUnloggedTables := True,
                goroutines := goroutines st @ replicate (nat (initialPoolSize cfg))
                   \<lparr>g_pool = r, g_poolName = poolName, g_started = False\<rparr>\<rparr>)"
  using assms
  by (auto simp: start_def start_loop_eq set_pool_def split: option.splits if_splits)

lemma start_registry:
  assumes "start cfg r poolName sch st = (res, st')"
  shows "backgroundDBPoolsByName st' = backgroundDBPoolsByName st \<and>
     length (pools st') = length (pools st) \<and>
     (\<forall>r'. r' \<noteq> r \<longrightarrow> pools st' ! r' = pools st ! r')"
  using assms
  by (auto simp: start_def start_loop_eq set_pool_def split: option.splits if_splits)

lemma pristineDBs_pool_existing:
  "backgroundDBPoolsByName st poolName = Some p \<Longrightarrow> pristineDBs_pool cfg poolName sch st = (Ok p, st)"
  by (simp add: pristineDBs_pool_def pools_index_def)

lemma pristineDBs_pool_new:
  assumes "backgroundDBPoolsByName st poolName = None"
    and "pristineDBs_pool cfg poolName sch st = (res, st1)"
  shows "backgroundDBPoolsByName st1 = (backgroundDBPoolsByName st)(poolName \<mapsto> Some (length (pools st))) \<and>
     length (pools st1) = Suc (length (pools st)) \<and>
     (\<forall>r' < length (pools st). pools st1 ! r' = pools st ! r') \<and>
     (res = Ok (Some (length (pools st))) \<and> label cfg \<noteq> [] \<and> 0 \<le> initialPoolSize cfg \<and>
        initialPoolSize cfg \<le> maxChanCap cfg \<and>
        goroutines st1 = goroutines st @ replicate (nat (initialPoolSize cfg))
          \<lparr>g_pool = length (pools st), g_poolName = poolName, g_started = False\<rparr> \<and>
        schema (pools st1 ! length (pools st)) = sch \<and>
        readyDBs (pools st1 ! length (pools st)) = make_chan (nat (initialPoolSize cfg))
      \<or> res = Fatal ConfigError \<and> label cfg = []
      \<or> res = Panic MakeChanSize \<and> label cfg \<noteq> [] \<and>
        (initialPoolSize cfg < 0 \<or> maxChanCap cfg < initialPoolSize cfg))"
proof -
  let ?r = "length (pools st)"
  let ?st0 = "st\<lparr>pools := pools st @ [zero_pool],
      backgroundDBPoolsByName := (backgroundDBPoolsByName st)(poolName \<mapsto> Some ?r)\<rparr>"
  obtain r0 st2 where st: "start cfg ?r poolName sch ?st0 = (r0, st2)"
    by (cases "start cfg ?r poolName sch ?st0")
  have p0: "pool_at ?st0 ?r = Some zero_pool"
    by (simp add: pool_at_def)
  note reg = start_registry [OF st]
  have st1: "st1 = st2"
    using assms st by (cases r0) (simp_all add: pristineDBs_pool_def Let_def)
  have frame: "backgroundDBPoolsByName st1 = (backgroundDBPoolsByName st)(poolName \<mapsto> Some ?r) \<and>
     length (pools st1) = Suc ?r \<and> (\<forall>r' < ?r. pools st1 ! r' = pools st ! r')"
    using reg st1 by (auto simp: nth_append)
  show ?thesis
  proof (cases r0)
    case (Ok u)
    with st have ok: "start cfg ?r poolName sch ?st0 = (Ok u, st2)" by simp
    from start_Ok [OF ok] p0 have
      "label cfg \<noteq> [] \<and> 0 \<le> initialPoolSize cfg \<and>
        initialPoolSize cfg \<le> maxChanCap cfg \<and>
        goroutines st2 = goroutines st @ replicate (nat (initialPoolSize cfg))
          \<lparr>g_pool = ?r, g_poolName = poolName, g_started = False\<rparr> \<and>
        schema (pools st2 ! ?r) = sch \<and>
        readyDBs (pools st2 ! ?r) = make_chan (nat (initialPoolSize cfg))"
      by (auto simp: set_pool_def)
    moreover have "res = Ok (Some ?r)"
      using assms st Ok frame st1 by (simp add: pristineDBs_pool_def Let_def pools_index_def)
    ultimately show ?thesis using frame st1 by blast
  next
    case (Fatal x)
    with st have "x = ConfigError \<and> label cfg = []"
      using p0 by (auto simp: start_def split: if_splits)
    moreover have "res = Fatal x"
      using assms st Fatal by (simp add: pristineDBs_pool_def Let_def)
    ultimately show ?thesis using frame by blast
  next
    case (Panic p)
    with st have "p = MakeChanSize \<and> label cfg \<noteq> [] \<and>
        (initialPoolSize cfg < 0 \<or> maxChanCap cfg < initialPoolSize cfg)"
      using p0 by (auto simp: start_def split: if_splits)
    moreover have "res = Panic p"
      using assms st Panic by (simp add: pristineDBs_pool_def Let_def)
    ultimately show ?thesis using frame by blast
  qed
qed

lemma pristineDBs_existing:
  assumes "backgroundDBPoolsByName st poolName = Some (Some r)" and "pool_at st r = Some b"
  shows "pristineDBs e cfg poolName sch sched st =
     (if sch \<noteq> None \<and> schema b \<noteq> sch then (Fatal (SchemaMismatch poolName), st)
      else select_readyDBs e cfg r sched (go_prepareNewDB r poolName st))"
  using assms by (simp add: pristineDBs_def pristineDBs_pool_existing)

lemma frame_go:
  "frame (go_prepareNewDB r poolName st) st' \<Longrightarrow>
     backgroundDBPoolsByName st' = backgroundDBPoolsByName st \<and>
     map schema (pools st') = map schema (pools st) \<and>
     map g_pool (goroutines st') = map g_pool (goroutines st) @ [r] \<and>
     map g_poolName (goroutines st') = map g_poolName (goroutines st) @ [poolName]"
  by (simp add: frame_def go_prepareNewDB_def)

lemma pristineDBs_after_pool:
  assumes "pristineDBs e cfg poolName sch sched st = (res, st')"
    and "pristineDBs_pool cfg poolName sch st = (r0, st1)"
  shows "(st' = st1 \<and> (\<forall>h. res \<noteq> Ok h)) \<or>
     (\<exists>r b. r0 = Ok (Some r) \<and> pool_at st1 r = Some b \<and> \<not> (sch \<noteq> None \<and> schema b \<noteq> sch) \<and>
        select_readyDBs e cfg r sched (go_prepareNewDB r poolName st1) = (res, st'))"
  using assms
  by (auto simp: pristineDBs_def split: result.splits option.splits if_splits)

lemma pristineDBs_before_wait:
  assumes "pristineDBs e cfg poolName sch sched st = (res, st')"
    and "pristineDBs_pool cfg poolName sch st = (r0, st1)"
  shows "(\<exists>r. r0 = Ok (Some r) \<and>
        select_readyDBs e cfg r sched (go_prepareNewDB r poolName st1) = (res, st')) \<or>
     (\<exists>x. r0 = Fatal x \<and> res = Fatal x) \<or> (\<exists>p. r0 = Panic p \<and> res = Panic p) \<or>
     res = Fatal (PoolNotAvailable poolName) \<or> res = Fatal (SchemaMismatch poolName) \<or>
     res = Panic NilDereference"
  using assms
  by (auto simp: pristineDBs_def split: result.splits option.splits if_splits)

lemma pristineDBs_registry:
  assumes "pristineDBs e cfg poolName sch sched st = (res, st')"
  shows "(backgroundDBPoolsByName st poolName \<noteq> None \<longrightarrow>
            backgroundDBPoolsByName st' = backgroundDBPoolsByName st \<and>
            length (pools st') = length (pools st)) \<and>
         (backgroundDBPoolsByName st poolName = None \<longrightarrow>
            backgroundDBPoolsByName st' =
              (backgroundDBPoolsByName st)(poolName \<mapsto> Some (length (pools st))) \<and>
            length (pools st') = Suc (length (pools st)))"
proof -
  obtain r0 st1 where pool: "pristineDBs_pool cfg poolName sch st = (r0, st1)"
    by (cases "pristineDBs_pool cfg poolName sch st")
  have same: "backgroundDBPoolsByName st' = backgroundDBPoolsByName st1 \<and>
     length (pools st') = length (pools st1)"
    using pristineDBs_after_pool [OF assms pool]
  proof (elim disjE exE conjE)
    fix r b
    assume "select_readyDBs e cfg r sched (go_prepareNewDB r poolName st1) = (res, st')"
    from select_readyDBs_frame [OF this] show ?thesis
      using frame_go [of r poolName st1 st'] by (metis length_map)
  qed simp
  show ?thesis
  proof (cases "backgroundDBPoolsByName st poolName")
    case None
    from pristineDBs_pool_new [OF None pool] same None show ?thesis by simp
  next
    case (Some p)
    from pristineDBs_pool_existing [OF Some, of cfg sch] pool have "st1 = st" by simp
    with same Some show ?thesis by simp
  qed
qed





lemmas call_eval = pristineDBs_def pristineDBs_pool_def pools_index_def start_def start_loop.simps
  go_prepareNewDB_def run_goroutine_def select_readyDBs.simps chan_recv_def timeout_def Second_def
  st_init_def cfg_small_def st_alloc_def st_nil_def

text \<open>
  Handles need not arrive in the order of their identities: when the run with
  identity 1 is still at work and the run with identity 2 has finished, the
  caller receives the handle of identity 2.
\<close>

lemma later_identity_delivered_first:
  "fst (pristineDBs env_ok cfg_small ''pkgA'' (Some 0) [0, 1, 1] st_init)
     = Ok ''dbname=sgtmp-pkgA-testdb-2-4242'' \<and>
   fst (pristineDBs env_ok cfg_small ''pkgA'' (Some 0) [0, 0] st_init)
     = Ok ''dbname=sgtmp-pkgA-testdb-1-4242''"
  by (simp add: call_eval system_eval prepare_eval)

subsection \<open>The registry\<close>

lemma pristineDBs_keeps_entry:
  assumes "pristineDBs e cfg poolName sch sched st = (res, st')"
    and "backgroundDBPoolsByName st k = Some p"
  shows "backgroundDBPoolsByName st' k = Some p"
  using pristineDBs_registry [OF assms(1)] assms(2)
  by (cases "backgroundDBPoolsByName st poolName") auto

lemma run_calls_keeps_entry:
  "backgroundDBPoolsByName st k = Some p \<Longrightarrow>
     backgroundDBPoolsByName (run_calls e cfg calls st) k = Some p"
proof (induction calls arbitrary: st)
  case Nil
  then show ?case by simp
next
  case (Cons c cs)
  obtain poolName sch sched where c: "c = (poolName, sch, sched)" by (cases c)
  obtain res st' where run: "pristineDBs e cfg poolName sch sched st = (res, st')"
    by (cases "pristineDBs e cfg poolName sch sched st")
  note keep = pristineDBs_keeps_entry [OF run Cons.prems]
  show ?case
    using c run keep Cons.IH [OF keep] by (cases res) simp_all
qed

lemma constructed_for_existing:
  "backgroundDBPoolsByName st n \<noteq> None \<Longrightarrow> constructed_for e cfg n calls st = 0"
proof (induction calls arbitrary: st)
  case Nil
  then show ?case by simp
next
  case (Cons c cs)
  obtain poolName sch sched where c: "c = (poolName, sch, sched)" by (cases c)
  obtain res st' where run: "pristineDBs e cfg poolName sch sched st = (res, st')"
    by (cases "pristineDBs e cfg poolName sch sched st")
  from Cons.prems obtain p where p: "backgroundDBPoolsByName st n = Some p" by blast
  from pristineDBs_keeps_entry [OF run p] have ex: "backgroundDBPoolsByName st' n \<noteq> None" by simp
  have here: "poolName = n \<longrightarrow> length (pools st') = length (pools st)"
    using pristineDBs_registry [OF run] Cons.prems by auto
  show ?case
    using c run here Cons.IH [OF ex] by (cases res) auto
qed

lemma constructed_for_le_1:
  "constructed_for e cfg n calls st \<le> 1"
proof (induction calls arbitrary: st)
  case Nil
  then show ?case by simp
next
  case (Cons c cs)
  obtain poolName sch sched where c: "c = (poolName, sch, sched)" by (cases c)
  obtain res st' where run: "pristineDBs e cfg poolName sch sched st = (res, st')"
    by (cases "pristineDBs e cfg poolName sch sched st")
  note reg = pristineDBs_registry [OF run]
  show ?case
  proof (cases "poolName = n")
    case False
    with c run Cons.IH [of st'] show ?thesis by (cases res) auto
  next
    case True
    show ?thesis
    proof (cases "backgroundDBPoolsByName st n")
      case (Some p)
      then have "constructed_for e cfg n (c # cs) st = 0"
        by (intro constructed_for_existing) simp
      then show ?thesis by simp
    next
      case None
      with reg True have len: "length (pools st') - length (pools st) = 1"
        and ex: "backgroundDBPoolsByName st' n \<noteq> None" by auto
      from constructed_for_existing [OF ex] have "constructed_for e cfg n cs st' = 0" .
      with c run True len show ?thesis by (cases res) auto
    qed
  qed
qed

text \<open>
  Claim C3. Over every sequence of calls of \<open>pristineDBs\<close>, from every state:
  an entry of \<open>backgroundDBPoolsByName\<close>, once present, is there unchanged after
  the calls (the map is insertion-only); the calls for a name allocate at most
  one pool object, and none when the name is registered already. The first call
  for a name allocates the object at the next free address and registers it
  there; a call for a registered name takes the registered object and changes
  nothing, so by the first part every later call finds the object of the first.
\<close>

theorem pool_constructed_once:
  "(\<forall>k p. backgroundDBPoolsByName st k = Some p \<longrightarrow>
      backgroundDBPoolsByName (run_calls e cfg calls st) k = Some p) \<and>
   constructed_for e cfg n calls st \<le> 1 \<and>
   (backgroundDBPoolsByName st n \<noteq> None \<longrightarrow> constructed_for e cfg n calls st = 0) \<and>
   (backgroundDBPoolsByName st n = None \<longrightarrow>
      backgroundDBPoolsByName (snd (pristineDBs e cfg n sch sched st)) n
        = Some (Some (length (pools st))) \<and>
      length (pools (snd (pristineDBs e cfg n sch sched st))) = Suc (length (pools st))) \<and>
   (\<forall>p. backgroundDBPoolsByName st n = Some p \<longrightarrow>
      pristineDBs_pool cfg n sch st = (Ok p, st))"
proof (intro conjI allI impI)
  fix k p
  assume "backgroundDBPoolsByName st k = Some p"
  then show "backgroundDBPoolsByName (run_calls e cfg calls st) k = Some p"
    by (rule run_calls_keeps_entry)
next
  show "constructed_for e cfg n calls st \<le> 1"
    by (rule constructed_for_le_1)
next
  assume "backgroundDBPoolsByName st n \<noteq> None"
  then show "constructed_for e cfg n calls st = 0"
    by (rule constructed_for_existing)
next
  assume none: "backgroundDBPoolsByName st n = None"
  obtain res st' where run: "pristineDBs e cfg n sch sched st = (res, st')"
    by (cases "pristineDBs e cfg n sch sched st")
  from pristineDBs_registry [OF run] none
  show "backgroundDBPoolsByName (snd (pristineDBs e cfg n sch sched st)) n
        = Some (Some (length (pools st)))"
    and "length (pools (snd (pristineDBs e cfg n sch sched st))) = Suc (length (pools st))"
    by (simp_all add: run)
next
  fix p
  assume "backgroundDBPoolsByName st n = Some p"
  then show "pristineDBs_pool cfg n sch st = (Ok p, st)"
    by (rule pristineDBs_pool_existing)
qed

theorem pool_constructed_once_witness:
  "backgroundDBPoolsByName st_pkgA ''pkgA'' = Some (Some 0) \<and>
   backgroundDBPoolsByName
     (run_calls env_ok cfg_small [(''pkgA'', None, [0, 0]), (''pkgB'', Some 1, [])] st_pkgA) ''pkgA''
     = Some (Some 0) \<and>
   constructed_for env_ok cfg_small ''pkgA'' [(''pkgA'', None, [0, 0]), (''pkgB'', Some 1, [])] st_pkgA = 0 \<and>
   backgroundDBPoolsByName st_init ''pkgA'' = None \<and>
   constructed_for env_ok cfg_small ''pkgA'' [(''pkgA'', Some 0, [1, 1]), (''pkgA'', None, [0, 0])] st_init = 1 \<and>
   backgroundDBPoolsByName (snd (pristineDBs env_ok cfg_small ''pkgA'' (Some 0) [1, 1] st_init)) ''pkgA''
     = Some (Some 0) \<and>
   length (pools (snd (pristineDBs env_ok cfg_small ''pkgA'' (Some 0) [1, 1] st_init))) = 1 \<and>
   pristineDBs_pool cfg_small ''pkgA'' None st_pkgA = (Ok (Some 0), st_pkgA)"
proof -
  have a: "backgroundDBPoolsByName st_pkgA ''pkgA'' = Some (Some 0)"
    and b: "backgroundDBPoolsByName st_init ''pkgA'' = None"
    and l: "length (pools st_init) = 0"
    by (simp_all add: st_pkgA_def st_init_def)
  have c: "constructed_for env_ok cfg_small ''pkgA'' [(''pkgA'', Some 0, [1, 1]), (''pkgA'', None, [0, 0])] st_init = 1"
    by (simp add: call_eval system_eval prepare_eval)
  from pool_constructed_once [of st_pkgA env_ok cfg_small
      "[(''pkgA'', None, [0, 0]), (''pkgB'', Some 1, [])]" "''pkgA''" None]
    pool_constructed_once [of st_init env_ok cfg_small
      "[(''pkgA'', Some 0, [1, 1]), (''pkgA'', None, [0, 0])]" "''pkgA''" "Some 0" "[1, 1]"]
    a b c l
  show ?thesis by simp
qed

subsection \<open>Replenishment\<close>

text \<open>
  Claim C7. When \<open>start\<close> returns, it has started exactly \<open>initialPoolSize\<close>
  goroutines, all running \<open>prepareNewDB\<close> for the new pool, and \<open>readyDBs\<close> is an
  empty channel of capacity \<open>initialPoolSize\<close>. A call of \<open>pristineDBs\<close> that
  returns a handle has started exactly one more goroutine for its pool when the
  pool existed, and \<open>initialPoolSize + 1\<close> when the call created the pool.
\<close>

theorem start_batch_and_one_per_call:
  "(start cfg r poolName sch st = (Ok (), st1) \<longrightarrow>
      goroutines st1 = goroutines st @ replicate (nat (initialPoolSize cfg))
         \<lparr>g_pool = r, g_poolName = poolName, g_started = False\<rparr> \<and>
      int (length (goroutines st1)) = int (length (goroutines st)) + initialPoolSize cfg \<and>
      (\<exists>b. pool_at st1 r = Some b \<and> int (cap (readyDBs b)) = initialPoolSize cfg \<and>
           buf (readyDBs b) = [] \<and> sendq (readyDBs b) = [])) \<and>
   (backgroundDBPoolsByName st poolName = Some (Some r) \<and>
    pristineDBs e cfg poolName sch sched st = (Ok h, st2) \<longrightarrow>
      length (goroutines st2) = length (goroutines st) + 1 \<and>
      map g_pool (goroutines st2) = map g_pool (goroutines st) @ [r] \<and>
      map g_poolName (goroutines st2) = map g_poolName (goroutines st) @ [poolName]) \<and>
   (backgroundDBPoolsByName st poolName = None \<and>
    pristineDBs e cfg poolName sch sched st = (Ok h, st3) \<longrightarrow>
      int (length (goroutines st3)) = int (length (goroutines st)) + initialPoolSize cfg + 1)"
proof (intro conjI impI)
  assume a: "start cfg r poolName sch st = (Ok (), st1)"
  from start_Ok [OF a] obtain b where b: "label cfg \<noteq> []" "0 \<le> initialPoolSize cfg"
    "pool_at st r = Some b"
    "st1 = (set_pool r (b\<lparr>schema := sch,
                 vlog := (if verbose cfg then StderrLogger else DiscardLogger),
                 created := Map.empty, dropped := Map.empty,
                 readyDBs := make_chan (nat (initialPoolSize cfg))\<rparr>) st)
               \<lparr>CreateUnloggedTables := True,
                goroutines := goroutines st @ replicate (nat (initialPoolSize cfg))
                   \<lparr>g_pool = r, g_poolName = poolName, g_started = False\<rparr>\<rparr>"
    by blast
  from b(3) have r: "r < length (pools st)"
    by (auto simp: pool_at_def split: if_splits)
  show "goroutines st1 = goroutines st @ replicate (nat (initialPoolSize cfg))
         \<lparr>g_pool = r, g_poolName = poolName, g_started = False\<rparr>"
    by (simp add: b(4) set_pool_def)
  then show "int (length (goroutines st1)) = int (length (goroutines st)) + initialPoolSize cfg"
    using b(2) by simp
  show "\<exists>b. pool_at st1 r = Some b \<and> int (cap (readyDBs b)) = initialPoolSize cfg \<and>
           buf (readyDBs b) = [] \<and> sendq (readyDBs b) = []"
    using r b(2) by (simp add: b(4) set_pool_def pool_at_def make_chan_def)
next
  assume a: "backgroundDBPoolsByName st poolName = Some (Some r) \<and>
    pristineDBs e cfg poolName sch sched st = (Ok h, st2)"
  then have pool: "pristineDBs_pool cfg poolName sch st = (Ok (Some r), st)"
    by (simp add: pristineDBs_pool_existing)
  from pristineDBs_after_pool [OF conjunct2 [OF a] pool]
  have "select_readyDBs e cfg r sched (go_prepareNewDB r poolName st) = (Ok h, st2)"
    by auto
  from frame_go [OF select_readyDBs_frame [OF this]]
  have g: "map g_pool (goroutines st2) = map g_pool (goroutines st) @ [r]"
    "map g_poolName (goroutines st2) = map g_poolName (goroutines st) @ [poolName]"
    by simp_all
  from g(1) have "length (map g_pool (goroutines st2)) = length (map g_pool (goroutines st) @ [r])"
    by simp
  then show "length (goroutines st2) = length (goroutines st) + 1" by simp
  from g show "map g_pool (goroutines st2) = map g_pool (goroutines st) @ [r]"
    and "map g_poolName (goroutines st2) = map g_poolName (goroutines st) @ [poolName]"
    by simp_all
next
  assume a: "backgroundDBPoolsByName st poolName = None \<and>
    pristineDBs e cfg poolName sch sched st = (Ok h, st3)"
  obtain r0 st1 where pool: "pristineDBs_pool cfg poolName sch st = (r0, st1)"
    by (cases "pristineDBs_pool cfg poolName sch st")
  from pristineDBs_after_pool [OF conjunct2 [OF a] pool]
  obtain r where r: "r0 = Ok (Some r)"
    "select_readyDBs e cfg r sched (go_prepareNewDB r poolName st1) = (Ok h, st3)"
    by auto
  from pristineDBs_pool_new [OF conjunct1 [OF a] pool] r(1)
  have g1: "0 \<le> initialPoolSize cfg"
    "goroutines st1 = goroutines st @ replicate (nat (initialPoolSize cfg))
          \<lparr>g_pool = length (pools st), g_poolName = poolName, g_started = False\<rparr>"
    by auto
  from frame_go [OF select_readyDBs_frame [OF r(2)]]
  have "map g_pool (goroutines st3) = map g_pool (goroutines st1) @ [r]" by simp
  then have "length (map g_pool (goroutines st3)) = length (map g_pool (goroutines st1) @ [r])"
    by simp
  then have "length (goroutines st3) = length (goroutines st1) + 1" by simp
  with g1 show "int (length (goroutines st3))
      = int (length (goroutines st)) + initialPoolSize cfg + 1"
    by simp
qed

theorem start_batch_and_one_per_call_witness:
  "start cfg_small 0 ''pkgA'' (Some 0) st_alloc = (Ok (), snd (start cfg_small 0 ''pkgA'' (Some 0) st_alloc)) \<and>
   int (length (goroutines (snd (start cfg_small 0 ''pkgA'' (Some 0) st_alloc))))
     = int (length (goroutines st_alloc)) + initialPoolSize cfg_small \<and>
   length (goroutines (snd (start cfg_small 0 ''pkgA'' (Some 0) st_alloc))) = 2 \<and>
   cap (readyDBs (pools (snd (start cfg_small 0 ''pkgA'' (Some 0) st_alloc)) ! 0)) = 2 \<and>
   backgroundDBPoolsByName st_pkgA ''pkgA'' = Some (Some 0) \<and>
   pristineDBs env_ok cfg_small ''pkgA'' (Some 0) [0, 0] st_pkgA
     = (Ok ''dbname=sgtmp-pkgA-testdb-1-4242'',
        snd (pristineDBs env_ok cfg_small ''pkgA'' (Some 0) [0, 0] st_pkgA)) \<and>
   length (goroutines (snd (pristineDBs env_ok cfg_small ''pkgA'' (Some 0) [0, 0] st_pkgA)))
     = length (goroutines st_pkgA) + 1 \<and>
   backgroundDBPoolsByName st_init ''pkgA'' = None \<and>
   pristineDBs env_ok cfg_small ''pkgA'' (Some 0) [1, 1] st_init
     = (Ok ''dbname=sgtmp-pkgA-testdb-1-4242'',
        snd (pristineDBs env_ok cfg_small ''pkgA'' (Some 0) [1, 1] st_init)) \<and>
   int (length (goroutines (snd (pristineDBs env_ok cfg_small ''pkgA'' (Some 0) [1, 1] st_init))))
     = int (length (goroutines st_init)) + initialPoolSize cfg_small + 1"
proof -
  have "fst (start cfg_small 0 ''pkgA'' (Some 0) st_alloc) = Ok ()"
    by (simp add: call_eval system_eval)
  then have a: "start cfg_small 0 ''pkgA'' (Some 0) st_alloc
      = (Ok (), snd (start cfg_small 0 ''pkgA'' (Some 0) st_alloc))"
    by (metis prod.collapse)
  have b: "length (goroutines (snd (start cfg_small 0 ''pkgA'' (Some 0) st_alloc))) = 2"
    "cap (readyDBs (pools (snd (start cfg_small 0 ''pkgA'' (Some 0) st_alloc)) ! 0)) = 2"
    by (simp_all add: call_eval system_eval)
  have c: "backgroundDBPoolsByName st_pkgA ''pkgA'' = Some (Some 0)"
    and d: "backgroundDBPoolsByName st_init ''pkgA'' = None"
    by (simp_all add: st_pkgA_def st_init_def)
  have "fst (pristineDBs env_ok cfg_small ''pkgA'' (Some 0) [0, 0] st_pkgA)
      = Ok ''dbname=sgtmp-pkgA-testdb-1-4242''"
    by (simp add: call_eval system_eval prepare_eval)
  then have f: "pristineDBs env_ok cfg_small ''pkgA'' (Some 0) [0, 0] st_pkgA
     = (Ok ''dbname=sgtmp-pkgA-testdb-1-4242'',
        snd (pristineDBs env_ok cfg_small ''pkgA'' (Some 0) [0, 0] st_pkgA))"
    by (metis prod.collapse)
  have "fst (pristineDBs env_ok cfg_small ''pkgA'' (Some 0) [1, 1] st_init)
      = Ok ''dbname=sgtmp-pkgA-testdb-1-4242''"
    by (simp add: call_eval system_eval prepare_eval)
  then have g: "pristineDBs env_ok cfg_small ''pkgA'' (Some 0) [1, 1] st_init
     = (Ok ''dbname=sgtmp-pkgA-testdb-1-4242'',
        snd (pristineDBs env_ok cfg_small ''pkgA'' (Some 0) [1, 1] st_init))"
    by (metis prod.collapse)
  note t1 = start_batch_and_one_per_call [where cfg = cfg_small and r = 0 and poolName = "''pkgA''"
      and sch = "Some 0" and st = st_alloc
      and ?st1.0 = "snd (start cfg_small 0 ''pkgA'' (Some 0) st_alloc)"]
  note t2 = start_batch_and_one_per_call [where cfg = cfg_small and r = 0 and poolName = "''pkgA''"
      and sch = "Some 0" and st = st_pkgA and e = env_ok and sched = "[0, 0]"
      and h = "''dbname=sgtmp-pkgA-testdb-1-4242''"
      and ?st2.0 = "snd (pristineDBs env_ok cfg_small ''pkgA'' (Some 0) [0, 0] st_pkgA)"]
  note t3 = start_batch_and_one_per_call [where cfg = cfg_small and poolName = "''pkgA''"
      and sch = "Some 0" and st = st_init and e = env_ok and sched = "[1, 1]"
      and h = "''dbname=sgtmp-pkgA-testdb-1-4242''"
      and ?st3.0 = "snd (pristineDBs env_ok cfg_small ''pkgA'' (Some 0) [1, 1] st_init)"]
  from t1 a have 1: "int (length (goroutines (snd (start cfg_small 0 ''pkgA'' (Some 0) st_alloc))))
     = int (length (goroutines st_alloc)) + initialPoolSize cfg_small"
    by blast
  from t2 c f have 2: "length (goroutines (snd (pristineDBs env_ok cfg_small ''pkgA'' (Some 0) [0, 0] st_pkgA)))
     = length (goroutines st_pkgA) + 1"
    by blast
  from t3 d g have 3: "int (length (goroutines (snd (pristineDBs env_ok cfg_small ''pkgA'' (Some 0) [1, 1] st_init))))
     = int (length (goroutines st_init)) + initialPoolSize cfg_small + 1"
    by blast
  from a b c d f g 1 2 3 show ?thesis by blast
qed

subsection \<open>The schema binding\<close>










text \<open>
  Claim C10. The schema check compares pointers. For a pool bound to the schema
  object at address \<open>a\<close>, a call that passes a pointer to another object with
  the same schema value ends with \<open>SchemaMismatch\<close>, before anything else
  happens: the state is unchanged.
\<close>

theorem schema_compared_by_pointer:
  assumes "backgroundDBPoolsByName st poolName = Some (Some r)" and "pool_at st r = Some b"
    and "schema b = Some a" and "a' \<noteq> a" and "schema_at e a' = schema_at e a"
  shows "pristineDBs e cfg poolName (Some a') sched st = (Fatal (SchemaMismatch poolName), st)"
  using assms by (simp add: pristineDBs_existing)

theorem schema_compared_by_pointer_witness:
  "backgroundDBPoolsByName st_pkgA ''pkgA'' = Some (Some 0) \<and> pool_at st_pkgA 0 = Some pool_pkgA \<and>
   schema pool_pkgA = Some 0 \<and> (1::nat) \<noteq> 0 \<and> schema_at env_ok 1 = schema_at env_ok 0 \<and>
   pristineDBs env_ok cfg_default ''pkgA'' (Some 1) [0, 0] st_pkgA
     = (Fatal (SchemaMismatch ''pkgA''), st_pkgA)"
proof -
  have a: "backgroundDBPoolsByName st_pkgA ''pkgA'' = Some (Some 0)"
    and b: "pool_at st_pkgA 0 = Some pool_pkgA"
    and c: "schema pool_pkgA = Some 0"
    and d: "(1::nat) \<noteq> 0"
    and f: "schema_at env_ok 1 = schema_at env_ok 0"
    by (simp_all add: st_pkgA_def pool_at_def pool_pkgA_def zero_pool_def env_ok_def)
  from schema_compared_by_pointer [OF a b c d f, of cfg_default "[0, 0]"] a b c d f
  show ?thesis by simp
qed

subsection \<open>Acquisition\<close>

lemma background_failure_not_mismatch:
  "background_failure res \<Longrightarrow> res \<noteq> Fatal (SchemaMismatch n) \<and> res \<noteq> Fatal (ProvisionTimeout t)"
  by (auto simp: background_failure_def)

text \<open>
  Claim C2, as amended. For a pool name with an existing pool: a call that
  passes a non-nil schema pointer other than the bound one ends with
  \<open>SchemaMismatch\<close> and changes nothing. A call that passes nil or the bound
  pointer never ends with \<open>SchemaMismatch\<close>; it waits on the channel of that
  pool, and either returns a handle that this channel delivered after some of the
  scheduled goroutines had run, or ends with \<open>ProvisionTimeout\<close>, or is ended
  by the failure of a provisioning goroutine.
\<close>

theorem pristineDBs_schema_check:
  assumes "backgroundDBPoolsByName st poolName = Some (Some r)" and "pool_at st r = Some b"
  shows "(sch \<noteq> None \<and> sch \<noteq> schema b \<longrightarrow>
            pristineDBs e cfg poolName sch sched st = (Fatal (SchemaMismatch poolName), st)) \<and>
         (sch = None \<or> sch = schema b \<longrightarrow>
            (\<forall>n. fst (pristineDBs e cfg poolName sch sched st) \<noteq> Fatal (SchemaMismatch n)) \<and>
            ((\<exists>h k st_k. fst (pristineDBs e cfg poolName sch sched st) = Ok h \<and> k \<le> length sched \<and>
                 run_goroutines e cfg (take k sched) (go_prepareNewDB r poolName st) = (Ok (), st_k) \<and>
                 delivers st_k r h) \<or>
             fst (pristineDBs e cfg poolName sch sched st) = Fatal (ProvisionTimeout timeout) \<or>
             background_failure (fst (pristineDBs e cfg poolName sch sched st))))"
proof (intro conjI impI)
  assume "sch \<noteq> None \<and> sch \<noteq> schema b"
  then show "pristineDBs e cfg poolName sch sched st = (Fatal (SchemaMismatch poolName), st)"
    using assms by (auto simp: pristineDBs_existing)
next
  assume ok: "sch = None \<or> sch = schema b"
  obtain res st' where sel:
    "select_readyDBs e cfg r sched (go_prepareNewDB r poolName st) = (res, st')"
    by (cases "select_readyDBs e cfg r sched (go_prepareNewDB r poolName st)")
  from ok have eq: "pristineDBs e cfg poolName sch sched st = (res, st')"
    using assms sel by (auto simp: pristineDBs_existing)
  note out = select_readyDBs_outcome [OF sel]
  from out show "(\<exists>h k st_k. fst (pristineDBs e cfg poolName sch sched st) = Ok h \<and> k \<le> length sched \<and>
                 run_goroutines e cfg (take k sched) (go_prepareNewDB r poolName st) = (Ok (), st_k) \<and>
                 delivers st_k r h) \<or>
             fst (pristineDBs e cfg poolName sch sched st) = Fatal (ProvisionTimeout timeout) \<or>
             background_failure (fst (pristineDBs e cfg poolName sch sched st))"
    by (simp add: eq)
  from out show "\<forall>n. fst (pristineDBs e cfg poolName sch sched st) \<noteq> Fatal (SchemaMismatch n)"
    by (auto simp: eq dest: background_failure_not_mismatch)
qed

theorem pristineDBs_schema_check_witness:
  "backgroundDBPoolsByName st_pkgA ''pkgA'' = Some (Some 0) \<and> pool_at st_pkgA 0 = Some pool_pkgA \<and>
   Some 1 \<noteq> schema pool_pkgA \<and> Some 0 = schema pool_pkgA \<and>
   pristineDBs env_ok cfg_default ''pkgA'' (Some 1) [0, 0] st_pkgA
     = (Fatal (SchemaMismatch ''pkgA''), st_pkgA) \<and>
   fst (pristineDBs env_ok cfg_default ''pkgA'' (Some 0) [0, 0] st_pkgA)
     \<noteq> Fatal (SchemaMismatch ''pkgA'') \<and>
   fst (pristineDBs env_ok cfg_default ''pkgA'' None [0, 0] st_pkgA)
     \<noteq> Fatal (SchemaMismatch ''pkgA'') \<and>
   fst (pristineDBs env_ok cfg_default ''pkgA'' (Some 0) [0, 0] st_pkgA)
     = Ok ''dbname=sgtmp-pkgA-testdb-1-4242''"
proof -
  have a: "backgroundDBPoolsByName st_pkgA ''pkgA'' = Some (Some 0)"
    and b: "pool_at st_pkgA 0 = Some pool_pkgA"
    and c: "Some 1 \<noteq> schema pool_pkgA" "Some 0 = schema pool_pkgA"
    by (simp_all add: st_pkgA_def pool_at_def pool_pkgA_def zero_pool_def)
  have d: "fst (pristineDBs env_ok cfg_default ''pkgA'' (Some 0) [0, 0] st_pkgA)
     = Ok ''dbname=sgtmp-pkgA-testdb-1-4242''"
    by (simp add: call_eval system_eval prepare_eval)
  from pristineDBs_schema_check [OF a b, of "Some 1" env_ok cfg_default "[0, 0]"]
    pristineDBs_schema_check [OF a b, of "Some 0" env_ok cfg_default "[0, 0]"]
    pristineDBs_schema_check [OF a b, of None env_ok cfg_default "[0, 0]"]
    a b c d
  show ?thesis by simp
qed

text \<open>
  A handle is not always returned: on the existing pool \<open>pkgA\<close>, with the bound
  schema or with nil, the call ends with \<open>ProvisionTimeout\<close> when no goroutine
  delivers a database in time.
\<close>

theorem pristineDBs_schema_check_counterexample:
  "backgroundDBPoolsByName st_pkgA ''pkgA'' = Some (Some 0) \<and> pool_at st_pkgA 0 = Some pool_pkgA \<and>
   schema pool_pkgA = Some 0 \<and>
   fst (pristineDBs env_ok cfg_default ''pkgA'' (Some 0) [] st_pkgA)
     = Fatal (ProvisionTimeout 45000000000) \<and>
   fst (pristineDBs env_ok cfg_default ''pkgA'' None [] st_pkgA)
     = Fatal (ProvisionTimeout 45000000000)"
  by (simp add: call_eval system_eval prepare_eval)

text \<open>
  Claim C4, as amended. Every call of \<open>pristineDBs\<close> ends in one of these ways:
  it returns a handle that \<open>readyDBs\<close> of its pool delivered; it ends with
  \<open>ProvisionTimeout\<close> carrying 45 seconds; it ends before the wait, with
  \<open>ConfigError\<close> or the panic of \<open>make\<close> in \<open>start\<close>, with
  \<open>PoolNotAvailable\<close> or with \<open>SchemaMismatch\<close>; or a provisioning goroutine
  ends the process during the wait. No other value is returned.
\<close>

theorem pristineDBs_outcomes:
  "(\<exists>h r k st_k. fst (pristineDBs e cfg poolName sch sched st) = Ok h \<and>
       fst (pristineDBs_pool cfg poolName sch st) = Ok (Some r) \<and> k \<le> length sched \<and>
       run_goroutines e cfg (take k sched)
         (go_prepareNewDB r poolName (snd (pristineDBs_pool cfg poolName sch st))) = (Ok (), st_k) \<and>
       delivers st_k r h) \<or>
   fst (pristineDBs e cfg poolName sch sched st) = Fatal (ProvisionTimeout (45 * Second)) \<or>
   fst (pristineDBs e cfg poolName sch sched st) = Fatal ConfigError \<or>
   fst (pristineDBs e cfg poolName sch sched st) = Panic MakeChanSize \<or>
   fst (pristineDBs e cfg poolName sch sched st) = Fatal (PoolNotAvailable poolName) \<or>
   fst (pristineDBs e cfg poolName sch sched st) = Fatal (SchemaMismatch poolName) \<or>
   background_failure (fst (pristineDBs e cfg poolName sch sched st))"
proof -
  obtain res st' where run: "pristineDBs e cfg poolName sch sched st = (res, st')"
    by (cases "pristineDBs e cfg poolName sch sched st")
  obtain r0 st1 where pool: "pristineDBs_pool cfg poolName sch st = (r0, st1)"
    by (cases "pristineDBs_pool cfg poolName sch st")
  have r0: "(\<exists>p. r0 = Ok p) \<or> r0 = Fatal ConfigError \<or> r0 = Panic MakeChanSize"
  proof (cases "backgroundDBPoolsByName st poolName")
    case None
    from pristineDBs_pool_new [OF None pool] show ?thesis by blast
  next
    case (Some p)
    from pristineDBs_pool_existing [OF Some, of cfg sch] pool show ?thesis by simp
  qed
  from pristineDBs_before_wait [OF run pool]
  have "(\<exists>h r k st_k. res = Ok h \<and> r0 = Ok (Some r) \<and> k \<le> length sched \<and>
       run_goroutines e cfg (take k sched) (go_prepareNewDB r poolName st1) = (Ok (), st_k) \<and>
       delivers st_k r h) \<or>
     res = Fatal (ProvisionTimeout (45 * Second)) \<or> res = Fatal ConfigError \<or>
     res = Panic MakeChanSize \<or> res = Fatal (PoolNotAvailable poolName) \<or>
     res = Fatal (SchemaMismatch poolName) \<or> background_failure res"
  proof (elim disjE exE conjE)
    fix r
    assume "r0 = Ok (Some r)"
      and "select_readyDBs e cfg r sched (go_prepareNewDB r poolName st1) = (res, st')"
    with select_readyDBs_outcome [OF this(2)] show ?thesis
      by (auto simp: timeout_def)
  next
    fix x
    assume "r0 = Fatal x" "res = Fatal x"
    with r0 show ?thesis by auto
  next
    fix p
    assume "r0 = Panic p" "res = Panic p"
    with r0 show ?thesis by auto
  qed (simp_all add: background_failure_def)
  then show ?thesis by (simp add: run pool)
qed

theorem pristineDBs_outcomes_witness:
  "fst (pristineDBs env_ok cfg_default ''pkgA'' (Some 0) [0, 0] st_pkgA)
     = Ok ''dbname=sgtmp-pkgA-testdb-1-4242'' \<and>
   ((\<exists>h r k st_k. fst (pristineDBs env_ok cfg_default ''pkgA'' (Some 0) [0, 0] st_pkgA) = Ok h \<and>
       fst (pristineDBs_pool cfg_default ''pkgA'' (Some 0) st_pkgA) = Ok (Some r) \<and> k \<le> length [0, 0::nat] \<and>
       run_goroutines env_ok cfg_default (take k [0, 0])
         (go_prepareNewDB r ''pkgA'' (snd (pristineDBs_pool cfg_default ''pkgA'' (Some 0) st_pkgA))) = (Ok (), st_k) \<and>
       delivers st_k r h) \<or>
    fst (pristineDBs env_ok cfg_default ''pkgA'' (Some 0) [0, 0] st_pkgA) = Fatal (ProvisionTimeout (45 * Second)) \<or>
    fst (pristineDBs env_ok cfg_default ''pkgA'' (Some 0) [0, 0] st_pkgA) = Fatal ConfigError \<or>
    fst (pristineDBs env_ok cfg_default ''pkgA'' (Some 0) [0, 0] st_pkgA) = Panic MakeChanSize \<or>
    fst (pristineDBs env_ok cfg_default ''pkgA'' (Some 0) [0, 0] st_pkgA) = Fatal (PoolNotAvailable ''pkgA'') \<or>
    fst (pristineDBs env_ok cfg_default ''pkgA'' (Some 0) [0, 0] st_pkgA) = Fatal (SchemaMismatch ''pkgA'') \<or>
    background_failure (fst (pristineDBs env_ok cfg_default ''pkgA'' (Some 0) [0, 0] st_pkgA)))"
proof -
  have d: "fst (pristineDBs env_ok cfg_default ''pkgA'' (Some 0) [0, 0] st_pkgA)
     = Ok ''dbname=sgtmp-pkgA-testdb-1-4242''"
    by (simp add: call_eval system_eval prepare_eval)
  show ?thesis
    by (rule conjI [OF d pristineDBs_outcomes])
qed

text \<open>
  The first two ways are not the only ones: a call with a schema pointer other
  than the bound one ends with \<open>SchemaMismatch\<close>, and a call during whose wait
  \<open>dbutil2.Open\<close> fails in a goroutine ends with \<open>OpenFailed\<close>.
\<close>

theorem pristineDBs_outcomes_counterexample:
  "fst (pristineDBs env_ok cfg_default ''pkgA'' (Some 1) [0, 0] st_pkgA) = Fatal (SchemaMismatch ''pkgA'') \<and>
   fst (pristineDBs env_no_open cfg_default ''pkgA'' (Some 0) [0, 0] st_pkgA) = Fatal OpenFailed"
  by (simp add: call_eval system_eval prepare_eval env_no_open_def)

end
